theory Spec2Isabelle
  imports Main "HOL-Library.Sublist"
begin

section \<open>Regular expressions as used by the translator\<close>

text \<open>
  The stub generator rewrites text with Python's \<^verbatim>\<open>re.sub\<close>.  The patterns it uses
  are built from literals, character classes, \<^verbatim>\<open>\b\<close>, \<^verbatim>\<open>^\<close>, alternation and the greedy
  repetitions \<^verbatim>\<open>?\<close>, \<^verbatim>\<open>*\<close>, \<^verbatim>\<open>+\<close>.  A position in the subject is a pair of the character
  just before it (if any) and the text still to be read; a matcher returns every position at
  which the pattern can end, in the order a backtracking matcher tries them, so that the head
  of the list is the match Python reports.  An iteration of a repetition that consumes
  nothing ends the repetition.

  A Python string is a sequence of code points.  A character here is a code point below
  256, so a string of the model is a Python string made of such code points only; text
  with other code points is not covered.  The patterns are \<^verbatim>\<open>str\<close> patterns, for which
  \<^verbatim>\<open>\b\<close> and \<^verbatim>\<open>\w\<close> follow Unicode: a word character is the underscore or a code point
  that is alphabetic, decimal, a digit or numeric.  Below 256 these are the ASCII letters
  and digits, U+00AA, U+00B2, U+00B3, U+00B5, U+00B9, U+00BA, U+00BC to U+00BE, and U+00C0
  to U+00FF without U+00D7 and U+00F7.  The class \<^verbatim>\<open>[0-9]\<close> is the ten ASCII digits.
\<close>

datatype regex =
    Chr char
  | Cls "char \<Rightarrow> bool"
  | Eps
  | WordB
  | Bol
  | Seq regex regex
  | Alt regex regex
  | Star regex

type_synonym pos = "char option \<times> string"

definition is_word :: "char \<Rightarrow> bool" where
  "is_word c = (let n = of_char c :: nat in
     (97 \<le> n \<and> n \<le> 122) \<or> (65 \<le> n \<and> n \<le> 90) \<or> (48 \<le> n \<and> n \<le> 57) \<or> n = 95
     \<or> n = 170 \<or> n = 178 \<or> n = 179 \<or> n = 181 \<or> n = 185 \<or> n = 186
     \<or> (188 \<le> n \<and> n \<le> 190) \<or> (192 \<le> n \<and> n \<le> 214) \<or> (216 \<le> n \<and> n \<le> 246)
     \<or> (248 \<le> n \<and> n \<le> 255))"

definition is_digit :: "char \<Rightarrow> bool" where
  "is_digit c = (let n = of_char c :: nat in 48 \<le> n \<and> n \<le> 57)"

text \<open>The same tests on the bits of a character, for evaluation.\<close>

lemma is_word_code [code]:
  "is_word (Char b0 b1 b2 b3 b4 b5 b6 b7) =
     (if b7 then
        (if b6 then \<not> (b4 \<and> \<not> b3 \<and> b2 \<and> b1 \<and> b0)
         else b5 \<and> (if b4 then
                       (if b3 then (b2 \<and> \<not> (b1 \<and> b0)) \<or> (\<not> b2 \<and> (b1 \<noteq> b0))
                        else (\<not> b2 \<and> b1) \<or> (b2 \<and> \<not> b1 \<and> b0))
                     else b3 \<and> \<not> b2 \<and> b1 \<and> \<not> b0))
      else
        ((\<not> b6 \<and> b5 \<and> b4 \<and> (\<not> b3 \<or> (\<not> b2 \<and> \<not> b1)))
         \<or> (b6 \<and> (b0 \<or> b1 \<or> b2 \<or> b3 \<or> b4) \<and> \<not> (b4 \<and> b3 \<and> (b2 \<or> (b1 \<and> b0))))
         \<or> (b6 \<and> \<not> b5 \<and> b4 \<and> b3 \<and> b2 \<and> b1 \<and> b0)))"
  by (cases b0; cases b1; cases b2; cases b3; cases b4; cases b5; cases b6; cases b7)
     (simp_all add: is_word_def)

lemma is_digit_code [code]:
  "is_digit (Char b0 b1 b2 b3 b4 b5 b6 b7) =
     (\<not> b7 \<and> \<not> b6 \<and> b5 \<and> b4 \<and> (\<not> b3 \<or> (\<not> b2 \<and> \<not> b1)))"
  by (cases b0; cases b1; cases b2; cases b3; cases b4; cases b5; cases b6; cases b7)
     (simp_all add: is_digit_def)

definition word_before :: "pos \<Rightarrow> bool" where
  "word_before p = (case fst p of None \<Rightarrow> False | Some c \<Rightarrow> is_word c)"

definition word_after :: "pos \<Rightarrow> bool" where
  "word_after p = (case snd p of [] \<Rightarrow> False | c # _ \<Rightarrow> is_word c)"

definition wordb :: "pos \<Rightarrow> bool" where
  "wordb p = (word_before p \<noteq> word_after p)"

function star_ends :: "(pos \<Rightarrow> pos list) \<Rightarrow> pos \<Rightarrow> pos list" where
  "star_ends step p =
     concat (map (\<lambda>q. if length (snd q) < length (snd p) then star_ends step q else [])
                 (step p)) @ [p]"
  by pat_completeness auto
termination
  by (relation "measure (\<lambda>(step, p). length (snd p))") auto

declare star_ends.simps [simp del]

primrec ends :: "regex \<Rightarrow> pos \<Rightarrow> pos list" where
  "ends (Chr c) = (\<lambda>p. case snd p of [] \<Rightarrow> [] | x # xs \<Rightarrow> if x = c then [(Some x, xs)] else [])"
| "ends (Cls P) = (\<lambda>p. case snd p of [] \<Rightarrow> [] | x # xs \<Rightarrow> if P x then [(Some x, xs)] else [])"
| "ends Eps = (\<lambda>p. [p])"
| "ends WordB = (\<lambda>p. if wordb p then [p] else [])"
| "ends Bol = (\<lambda>p. if fst p = None then [p] else [])"
| "ends (Seq a b) = (\<lambda>p. concat (map (ends b) (ends a p)))"
| "ends (Alt a b) = (\<lambda>p. ends a p @ ends b p)"
| "ends (Star a) = star_ends (ends a)"

definition Digit :: regex where
  "Digit = Cls is_digit"

definition Dot :: regex where
  "Dot = Cls (\<lambda>c. c \<noteq> CHR 0x0A)"

definition Opt :: "regex \<Rightarrow> regex" where
  "Opt r = Alt r Eps"

definition Plus :: "regex \<Rightarrow> regex" where
  "Plus r = Seq r (Star r)"

fun lits :: "string \<Rightarrow> regex" where
  "lits [] = Eps"
| "lits [c] = Chr c"
| "lits (c # cs) = Seq (Chr c) (lits cs)"

fun alts :: "regex list \<Rightarrow> regex" where
  "alts [] = Eps"
| "alts [r] = r"
| "alts (r # rs) = Alt r (alts rs)"

fun seqs :: "regex list \<Rightarrow> regex" where
  "seqs [] = Eps"
| "seqs [r] = r"
| "seqs (r # rs) = Seq r (seqs rs)"

text \<open>
  \<^verbatim>\<open>re.sub(pattern, repl, s)\<close>: scan from the left; at the first position where the
  pattern matches, emit the replacement and go on after the match; elsewhere copy one
  character.  After an empty match one character is copied, as Python does.
\<close>

function sub_from :: "regex \<Rightarrow> string \<Rightarrow> pos \<Rightarrow> string" where
  "sub_from r repl p =
     (case ends r p of
        [] \<Rightarrow> (case snd p of [] \<Rightarrow> [] | x # xs \<Rightarrow> x # sub_from r repl (Some x, xs))
      | q # _ \<Rightarrow>
          if length (snd q) < length (snd p) then repl @ sub_from r repl q
          else repl @ (case snd p of [] \<Rightarrow> [] | x # xs \<Rightarrow> x # sub_from r repl (Some x, xs)))"
  by pat_completeness auto
termination
  by (relation "measure (\<lambda>(r, repl, p). length (snd p))") auto

declare sub_from.simps [simp del]

definition re_sub :: "regex \<Rightarrow> string \<Rightarrow> string \<Rightarrow> string" where
  "re_sub r repl s = sub_from r repl (None, s)"

section \<open>String helpers\<close>

fun strip_prefix :: "string \<Rightarrow> string \<Rightarrow> string option" where
  "strip_prefix [] s = Some s"
| "strip_prefix (c # cs) [] = None"
| "strip_prefix (c # cs) (x # xs) = (if c = x then strip_prefix cs xs else None)"

lemma strip_prefix_length: "strip_prefix old s = Some rest \<Longrightarrow> length rest + length old = length s"
  by (induction old s rule: strip_prefix.induct) (auto split: if_splits)

text \<open>\<^verbatim>\<open>str.replace(old, new)\<close>: non-overlapping occurrences, left to right.\<close>

function replace :: "string \<Rightarrow> string \<Rightarrow> string \<Rightarrow> string" where
  "replace old new s =
     (if old = [] then new @ concat (map (\<lambda>c. c # new) s)
      else case s of
             [] \<Rightarrow> []
           | x # xs \<Rightarrow> (case strip_prefix old s of
                          Some rest \<Rightarrow> new @ replace old new rest
                        | None \<Rightarrow> x # replace old new xs))"
  by pat_completeness auto
termination
  by (relation "measure (\<lambda>(old, new, s). length s)")
     (auto dest!: strip_prefix_length simp: neq_Nil_conv)

declare replace.simps [simp del]

text \<open>\<^verbatim>\<open>str.strip()\<close> removes the code points for which \<^verbatim>\<open>str.isspace\<close> holds; below 256
  these are U+0009 to U+000D, U+001C to U+0020, U+0085 and U+00A0.\<close>

definition is_space :: "char \<Rightarrow> bool" where
  "is_space c = (let n = of_char c :: nat in
     (9 \<le> n \<and> n \<le> 13) \<or> (28 \<le> n \<and> n \<le> 32) \<or> n = 133 \<or> n = 160)"

lemma is_space_code [code]:
  "is_space (Char b0 b1 b2 b3 b4 b5 b6 b7) =
     (\<not> b6 \<and>
      (if b7 then \<not> b4 \<and> \<not> b3 \<and> \<not> b1 \<and> (if b5 then \<not> b2 \<and> \<not> b0 else b2 \<and> b0)
       else
         ((\<not> b5 \<and> \<not> b4 \<and> b3 \<and> ((\<not> b2 \<and> (b1 \<or> b0)) \<or> (b2 \<and> \<not> b1)))
          \<or> (\<not> b5 \<and> b4 \<and> b3 \<and> b2)
          \<or> (b5 \<and> \<not> b4 \<and> \<not> b3 \<and> \<not> b2 \<and> \<not> b1 \<and> \<not> b0))))"
  by (cases b0; cases b1; cases b2; cases b3; cases b4; cases b5; cases b6; cases b7)
     (simp_all add: is_space_def)

definition strip :: "string \<Rightarrow> string" where
  "strip s = rev (dropWhile is_space (rev (dropWhile is_space s)))"

section \<open>The token translator\<close>

definition kw :: "regex \<Rightarrow> regex" where
  "kw r = Seq WordB (Seq r WordB)"

definition re_charptr :: regex where
  "re_charptr = seqs [WordB, Opt (Seq (lits ''const'') (Plus (Chr CHR '' ''))), lits ''char'',
                      Plus (Chr CHR '' ''), Chr CHR ''*'']"

definition re_const :: regex where
  "re_const = kw (Seq (lits ''const'') (Opt (lits ''expr'')))"

definition re_fixed_int :: regex where
  "re_fixed_int = kw (seqs [Opt (Chr CHR ''u''), lits ''int'', Plus Digit, Opt (lits ''_t'')])"

definition re_native_int :: regex where
  "re_native_int =
     kw (Plus (Seq (Star (Chr CHR '' ''))
                   (alts [lits ''int'', lits ''short'', lits ''long'', lits ''byte'', lits ''char''])))"

definition re_std :: "string \<Rightarrow> regex" where
  "re_std w = kw (Seq (Opt (lits ''std.'')) (lits w))"

definition re_map :: regex where
  "re_map = kw (seqs [Opt (lits ''std.''), Opt (lits ''unordered_''), lits ''map''])"

definition re_bol :: "string \<Rightarrow> regex" where
  "re_bol w = Seq Bol (Seq (lits w) WordB)"

definition markers :: "string \<Rightarrow> string" where
  "markers s =
     strip (replace ''...'' '''' (replace ''*'' '''' (replace ''&'' ''''
       (replace ''>'' '']'' (replace ''<'' ''['' (replace ''::'' ''.'' s))))))"

definition qualifiers :: "string \<Rightarrow> string" where
  "qualifiers s = re_sub (kw (lits ''volatile'')) '''' (re_sub re_const '''' s)"

definition void_rule :: "string \<Rightarrow> string" where
  "void_rule s = re_sub (kw (lits ''void'')) ''None'' s"

definition type_rules :: "string \<Rightarrow> string" where
  "type_rules s =
     re_sub re_map ''Dict''
       (re_sub (re_std ''pair'') ''Tuple''
         (re_sub (re_std ''vector'') ''List''
           (re_sub (re_std ''string'') ''str''
             (re_sub (kw (lits ''double'')) ''float''
               (re_sub re_native_int '' int''
                 (re_sub (kw (lits ''unsigned'')) ''''
                   (re_sub re_fixed_int ''int'' s)))))))"

definition literal_rules :: "string \<Rightarrow> string" where
  "literal_rules s =
     re_sub (kw (lits ''NULL'')) ''None''
       (re_sub (kw (lits ''nullptr'')) ''None''
         (re_sub (kw (lits ''false'')) ''False''
           (re_sub (kw (lits ''true'')) ''True'' s)))"

definition introducers :: "string \<Rightarrow> string" where
  "introducers s = re_sub (re_bol ''typename'') '''' (re_sub (re_bol ''class'') '''' s)"

definition before_void :: "string \<Rightarrow> string" where
  "before_void s = qualifiers (markers (re_sub re_charptr ''str'' s))"

definition after_void :: "string \<Rightarrow> string" where
  "after_void s = strip (introducers (literal_rules (type_rules s)))"

definition simple_parse :: "string \<Rightarrow> string" where
  "simple_parse orig_name =
     (if orig_name = [] then [] else after_void (void_rule (before_void orig_name)))"

definition simple_parse_node :: "string option \<Rightarrow> string" where
  "simple_parse_node orig_name = (case orig_name of None \<Rightarrow> [] | Some s \<Rightarrow> simple_parse s)"

section \<open>Exported declaration nodes\<close>

text \<open>
  The reader hands over lxml elements: a tag, attributes, the text before the first child,
  the children, and the text after the closing tag.
\<close>

datatype xml = Element (x_tag: string) (x_attrib: "(string \<times> string) list")
  (x_text: "string option") (x_children: "xml list") (x_tail: "string option")

definition find_child :: "string \<Rightarrow> xml \<Rightarrow> xml option" where
  "find_child t x = List.find (\<lambda>c. x_tag c = t) (x_children x)"

definition iterfind :: "string \<Rightarrow> xml \<Rightarrow> xml list" where
  "iterfind t x = filter (\<lambda>c. x_tag c = t) (x_children x)"

definition attrib_get :: "xml \<Rightarrow> string \<Rightarrow> string \<Rightarrow> string" where
  "attrib_get x k d = (case map_of (x_attrib x) k of None \<Rightarrow> d | Some v \<Rightarrow> v)"

definition opt_text :: "string option \<Rightarrow> string list" where
  "opt_text t = (case t of None \<Rightarrow> [] | Some s \<Rightarrow> if s = [] then [] else [s])"

fun itertext :: "xml \<Rightarrow> string list" where
  "itertext (Element tg at tx cs ta) =
     opt_text tx @ concat (map (\<lambda>c. itertext c @ opt_text (x_tail c)) cs)"

section \<open>Qualified names\<close>

text \<open>
  What the \<^verbatim>\<open>qualname\<close> property reads of an object: the value stored by the setter (only
  Enum and Class store one), the \<^verbatim>\<open>name\<close> attribute and the container.  A Type object has
  no \<^verbatim>\<open>name\<close> attribute; the other classes set it, to the text of a node, which is
  \<^verbatim>\<open>None\<close> when the node has no text.  The result comes with a flag telling whether the
  "doesn't know its qualname" diagnostic is printed for this object; that line prints the
  object, that is, it renders it.
\<close>

datatype name_attr = Unset | Holds "string option"

datatype pe = PE (pe_qualname: "string option") (pe_name: name_attr) (pe_container: "pe option")

text \<open>\<^verbatim>\<open>getattr(self, "name", None)\<close>, and a name as \<^verbatim>\<open>%s\<close> and \<^verbatim>\<open>str.format\<close> print it.\<close>

fun name_value :: "name_attr \<Rightarrow> string option" where
  "name_value Unset = None"
| "name_value (Holds v) = v"

definition py_format :: "string option \<Rightarrow> string" where
  "py_format v = (case v of None \<Rightarrow> ''None'' | Some s \<Rightarrow> s)"

definition startswith :: "string \<Rightarrow> string \<Rightarrow> bool" where
  "startswith s p = (take (length p) s = p)"

fun qualname :: "pe \<Rightarrow> string" where
  "qualname (PE (Some q) n c) = q"
| "qualname (PE None (Holds v) (Some c)) = qualname c @ ''.'' @ py_format v"
| "qualname (PE None n c) =
     (case name_value n of None \<Rightarrow> ''???'' | Some m \<Rightarrow> if m = [] then ''???'' else m)"

fun qualname_diagnostic :: "pe \<Rightarrow> bool" where
  "qualname_diagnostic (PE (Some q) n c) = False"
| "qualname_diagnostic (PE None (Holds v) (Some c)) = False"
| "qualname_diagnostic (PE None n c) =
     (case name_value n of None \<Rightarrow> True | Some m \<Rightarrow> m = [] \<or> \<not> startswith m ''ogdf'')"

section \<open>Type expressions\<close>

text \<open>
  A Type object keeps its node, the override, the parts (translated strings and nested Type
  objects) and the target.  The target is a reference to another object; what rendering and
  resolution read through a reference (its truth value and its \<^verbatim>\<open>qualname\<close>) and the two
  registries make up the context.
\<close>

datatype 'e type_expr = Type (t_xml: "xml option") (override: string) (parts: "'e part list")
  (target: "'e option")
and 'e part = PStr string | PType "'e type_expr"

record 'e ctx =
  INSTANCES :: "string \<rightharpoonup> 'e"
  NAMESPACE :: "string \<rightharpoonup> 'e"
  truthy :: "'e \<Rightarrow> bool"
  qualname_of :: "'e \<Rightarrow> string"

definition target_truthy :: "'e ctx \<Rightarrow> 'e option \<Rightarrow> bool" where
  "target_truthy C t = (case t of None \<Rightarrow> False | Some e \<Rightarrow> truthy C e)"

definition Type_bool :: "'e ctx \<Rightarrow> 'e type_expr \<Rightarrow> bool" where
  "Type_bool C t = (parts t \<noteq> [] \<or> override t \<noteq> [] \<or> target_truthy C (target t))"

fun Type_str :: "'e ctx \<Rightarrow> 'e type_expr \<Rightarrow> string"
  and part_str :: "'e ctx \<Rightarrow> 'e part \<Rightarrow> string" where
  "Type_str C (Type x ov ps tg) =
     (if ov \<noteq> [] then ov
      else if target_truthy C tg then (case tg of Some e \<Rightarrow> qualname_of C e | None \<Rightarrow> [])
      else if ps \<noteq> [] then concat (map (part_str C) ps)
      else ''Any'')"
| "part_str C (PStr s) = s"
| "part_str C (PType t) = Type_str C t"

definition part_bool :: "'e ctx \<Rightarrow> 'e part \<Rightarrow> bool" where
  "part_bool C p = (case p of PStr s \<Rightarrow> s \<noteq> [] | PType t \<Rightarrow> Type_bool C t)"

definition is_empty :: "'e type_expr \<Rightarrow> bool" where
  "is_empty t =
     (case t_xml t of
        None \<Rightarrow> True
      | Some x \<Rightarrow>
          if x_attrib x \<noteq> [] then False
          else if x_children x \<noteq> [] then False
          else (case x_text x of
                  None \<Rightarrow> True
                | Some tx \<Rightarrow> if tx \<noteq> [] \<and> strip tx \<noteq> [] then False else True))"

text \<open>
  \<^verbatim>\<open>getattr(self.parts[0], "qualname", None)\<close>: a string has no such attribute; a nested
  Type is built with no container, never gets a name or a stored qualified name, and so
  answers with the placeholder of the property.
\<close>

definition Type_pe :: pe where
  "Type_pe = PE None Unset None"

definition part_qualname :: "'e part \<Rightarrow> string option" where
  "part_qualname p = (case p of PStr s \<Rightarrow> None | PType t \<Rightarrow> Some (qualname Type_pe))"

definition refid :: "'e type_expr \<Rightarrow> string" where
  "refid t = (case t_xml t of None \<Rightarrow> [] | Some x \<Rightarrow> attrib_get x ''refid'' [])"

definition bind_target :: "'e ctx \<Rightarrow> string \<Rightarrow> 'e part list \<Rightarrow> 'e option" where
  "bind_target C rid ps =
     (let tg = INSTANCES C rid in
      if \<not> target_truthy C tg \<and> ps \<noteq> [] then
        (case part_qualname (hd ps) of
           None \<Rightarrow> tg
         | Some qn \<Rightarrow> (case NAMESPACE C qn of None \<Rightarrow> tg | Some e \<Rightarrow> Some e))
      else tg)"

fun resolve :: "'e ctx \<Rightarrow> 'e type_expr \<Rightarrow> 'e type_expr"
  and resolve_part :: "'e ctx \<Rightarrow> 'e part \<Rightarrow> 'e part" where
  "resolve C (Type x ov ps tg) =
     (if is_empty (Type x ov ps tg) then Type x ov ps tg
      else let ps' = map (resolve_part C) ps
           in Type x ov ps' (bind_target C (refid (Type x ov ps tg)) ps'))"
| "resolve_part C (PStr s) = PStr s"
| "resolve_part C (PType t) = PType (resolve C t)"

text \<open>
  \<^verbatim>\<open>is_resolvable\<close> resolves the object, then asks the first part when the object itself is
  unbound; the answer comes with the object as the calls leave it.
\<close>

lemma resolve_size:
  "size (resolve C t) = size t" "size (resolve_part C p) = size p"
proof (induction C t and C p rule: resolve_resolve_part.induct)
  case (1 C x ov ps tg)
  have "size_list size (map (resolve_part C) ps) = size_list size ps"
    if "\<not> is_empty (Type x ov ps tg)"
    using "1.IH" [OF that] by (induction ps) auto
  moreover have "size (bind_target C r qs) = size tg" for r qs
    by (cases "bind_target C r qs"; cases tg) simp_all
  ultimately show ?case by (simp add: Let_def)
qed simp_all

function is_resolvable :: "'e ctx \<Rightarrow> 'e type_expr \<Rightarrow> bool \<times> 'e type_expr" where
  "is_resolvable C t =
     (case resolve C t of
        Type x ov ps tg \<Rightarrow>
          if tg \<noteq> None then (True, Type x ov ps tg)
          else (case ps of
                  [] \<Rightarrow> (False, Type x ov ps tg)
                | PStr s # rest \<Rightarrow> (False, Type x ov ps tg)
                | PType u # rest \<Rightarrow>
                    (case is_resolvable C u of (b, u') \<Rightarrow> (b, Type x ov (PType u' # rest) tg))))"
  by pat_completeness auto
termination
proof (relation "measure (\<lambda>(C, t). size t)", goal_cases)
  case 1
  show ?case by simp
next
  case (2 C t x ov ps tg p rest u)
  have "size (resolve C t) = size t" by (rule resolve_size)
  with 2 show ?case by simp
qed

declare is_resolvable.simps [simp del]

subsection \<open>Construction of a Type object\<close>

text \<open>
  \<^verbatim>\<open>re.match\<close> on a pattern cut into consecutive segments: the positions after each
  segment along the first path a backtracking matcher completes.  The text of a group is
  what lies between two of these positions.
\<close>

fun first_some :: "('a \<Rightarrow> 'b option) \<Rightarrow> 'a list \<Rightarrow> 'b option" where
  "first_some f [] = None"
| "first_some f (x # xs) = (case f x of None \<Rightarrow> first_some f xs | Some y \<Rightarrow> Some y)"

fun path :: "regex list \<Rightarrow> pos \<Rightarrow> pos list option" where
  "path [] p = Some []"
| "path (r # rs) p = first_some (\<lambda>q. map_option (Cons q) (path rs q)) (ends r p)"

definition between :: "pos \<Rightarrow> pos \<Rightarrow> string" where
  "between p q = take (length (snd p) - length (snd q)) (snd p)"

definition conditional_match :: "string \<Rightarrow> (string \<times> string) option" where
  "conditional_match t =
     (case path [Opt (lits ''std.''), lits ''conditional'', Star (Chr CHR '' ''), Chr CHR ''['',
                 Star Dot, Chr CHR '','', Star Dot, Chr CHR '','', Star Dot, lits ''].type'']
                (None, t) of
        Some [q1, q2, q3, q4, q5, q6, q7, q8, q9, q10] \<Rightarrow> Some (between q6 q7, between q8 q9)
      | _ \<Rightarrow> None)"

definition enable_if_match :: "string \<Rightarrow> string option" where
  "enable_if_match t =
     (case path [Opt (lits ''std.''), lits ''enable_if'', Star (Chr CHR '' ''), Chr CHR ''['',
                 Star Dot, Chr CHR '','', Star Dot, lits ''].type'']
                (None, t) of
        Some [q1, q2, q3, q4, q5, q6, q7, q8] \<Rightarrow> Some (between q6 q7)
      | _ \<Rightarrow> None)"

definition endswith :: "string \<Rightarrow> string \<Rightarrow> bool" where
  "endswith s p = startswith (rev s) (rev p)"

definition dquote :: string where
  "dquote = [CHR 0x22]"

definition squote :: string where
  "squote = [CHR 0x27]"

definition type_override :: "string \<Rightarrow> string" where
  "type_override t =
     (let ov0 = [];
          ov1 = (case conditional_match t of
                   Some (tr, fa) \<Rightarrow> ''Union['' @ simple_parse tr @ '', '' @ simple_parse fa @ '']''
                 | None \<Rightarrow> ov0);
          ov2 = (case enable_if_match t of
                   Some tr \<Rightarrow> ''Annotated['' @ tr @ '', '' @ dquote @ replace dquote squote t
                               @ dquote @ '']''
                 | None \<Rightarrow> ov1);
          ov3 = (if startswith t ''std.function'' \<or> startswith t ''function'' then ''Callable''
                 else ov2)
      in if CHR ''-'' \<in> set t \<or> CHR ''@'' \<in> set t \<or> endswith t ''.''
         then ''WTF_TYPE['' @ dquote @ replace dquote squote t @ dquote @ '']''
         else ov3)"

fun Type_of_node :: "'e ctx \<Rightarrow> xml \<Rightarrow> 'e type_expr" where
  "Type_of_node C (Element tg at tx cs ta) =
     (let ps = filter (part_bool C)
                 (PStr (simple_parse_node tx) #
                  concat (map (\<lambda>t. [PType (Type_of_node C t), PStr (simple_parse_node (x_tail t))]) cs))
      in Type (Some (Element tg at tx cs ta)) (type_override (concat (map (part_str C) ps))) ps None)"

definition Type_init :: "'e ctx \<Rightarrow> xml option \<Rightarrow> 'e type_expr" where
  "Type_init C xml = (case xml of None \<Rightarrow> Type None [] [] None | Some x \<Rightarrow> Type_of_node C x)"

definition type_parse :: "'e ctx \<Rightarrow> xml option \<Rightarrow> string" where
  "type_parse C orig_name = Type_str C (Type_init C orig_name)"

text \<open>
  What construction guarantees and resolution keeps: a Type whose node is empty has no parts.
\<close>

fun consistent :: "'e type_expr \<Rightarrow> bool"
  and consistent_part :: "'e part \<Rightarrow> bool" where
  "consistent (Type x ov ps tg) =
     ((is_empty (Type x ov ps tg) \<longrightarrow> ps = []) \<and> list_all consistent_part ps)"
| "consistent_part (PStr s) = True"
| "consistent_part (PType t) = consistent t"

section \<open>Declaration entities\<close>

datatype exn = AttributeError | KeyError | TypeError | SyntaxError

definition nl :: string where
  "nl = [CHR 0x0A]"

definition tab :: string where
  "tab = [CHR 0x09]"

fun join :: "string \<Rightarrow> string list \<Rightarrow> string" where
  "join sep [] = []"
| "join sep [x] = x"
| "join sep (x # xs) = x @ sep @ join sep xs"

text \<open>\<^verbatim>\<open>str.splitlines\<close>: the line boundaries below 256 are U+000A to U+000D, U+001C to
  U+001E and U+0085; \<^verbatim>\<open>\r\n\<close> is one boundary.\<close>

definition is_linebreak :: "char \<Rightarrow> bool" where
  "is_linebreak c = (let n = of_char c :: nat in
     (10 \<le> n \<and> n \<le> 13) \<or> (28 \<le> n \<and> n \<le> 30) \<or> n = 133)"

fun splitlines_from :: "string \<Rightarrow> string \<Rightarrow> string list" where
  "splitlines_from cur [] = (if cur = [] then [] else [rev cur])"
| "splitlines_from cur (c # cs) =
     (if is_linebreak c then
        rev cur # (case cs of
                     d # ds \<Rightarrow> if c = CHR 0x0D \<and> d = CHR 0x0A then splitlines_from [] ds
                               else splitlines_from [] cs
                   | [] \<Rightarrow> splitlines_from [] cs)
      else splitlines_from (c # cur) cs)"

definition splitlines :: "string \<Rightarrow> string list" where
  "splitlines s = splitlines_from [] s"

subsection \<open>The base class\<close>

text \<open>
  The constructor stores the container, reads the brief description when the node has one
  (otherwise the attribute stays unset), registers the object under the node's id when it
  has one, and ends by assigning \<^verbatim>\<open>None\<close> to the container.
\<close>

record base =
  container :: "pe option"
  brief :: "string option"

definition brief_text :: "xml \<Rightarrow> string option" where
  "brief_text x =
     (case find_child ''briefdescription'' x of
        None \<Rightarrow> None
      | Some b \<Rightarrow> Some (join '' '' (map strip (splitlines (concat (map strip (itertext b)))))))"

definition ParsedElement_init :: "xml \<Rightarrow> pe option \<Rightarrow> base" where
  "ParsedElement_init x c = (\<lparr>container = c, brief = brief_text x\<rparr>) \<lparr>container := None\<rparr>"

definition register_id :: "xml \<Rightarrow> 'e \<Rightarrow> 'e ctx \<Rightarrow> 'e ctx" where
  "register_id x self C =
     (let i = attrib_get x ''id'' [] in
      if i \<noteq> [] then C\<lparr>INSTANCES := (INSTANCES C)(i \<mapsto> self)\<rparr> else C)"

subsection \<open>The repair loop\<close>

text \<open>
  \<^verbatim>\<open>check\<close> counts attempts from 1.  Each attempt renders the object and hands the text to
  the Python parser, which is a parameter here (\<open>parses\<close> holds of the texts on which
  \<^verbatim>\<open>ast.parse\<close> returns; warnings it records are printed and do not fail the attempt).
  When rendering raises or the parser rejects, the handler looks for the method \<^verbatim>\<open>fix<i>\<close>
  of the class.  If the class has one, it is called: it changes the object, or it raises,
  and what it raises leaves the loop, because the call is made inside the handler.  If the
  class has none, the handler prints a line with the class, the qualified name and the
  error, then the rendering (\<^verbatim>\<open>None\<close> when rendering itself raised), and raises the error
  again.  Reading the qualified name may print the "doesn't know its qualname" line, which
  renders the object once more; when that raises, the handler is left before it prints
  the failure.

  A class is given by its rendering function, by what the \<^verbatim>\<open>qualname\<close> property reads of
  its objects, and by the list of its strategies \<^verbatim>\<open>fix1\<close>, \<^verbatim>\<open>fix2\<close>, ...  A failure
  records the attempt at which the loop was left, the exception that left it, and what the
  handler printed of the failure: the qualified name of its line and the rendering printed
  after it, or nothing.
\<close>

record failure =
  attempt :: nat
  raised :: exn
  surfaced :: "(string \<times> string option) option"

definition fix_lookup :: "('s \<Rightarrow> exn + 's) list \<Rightarrow> nat \<Rightarrow> ('s \<Rightarrow> exn + 's) option" where
  "fix_lookup fixes i = (if 1 \<le> i \<and> i \<le> length fixes then Some (fixes ! (i - 1)) else None)"

definition attempt_render :: "(string \<Rightarrow> bool) \<Rightarrow> ('s \<Rightarrow> exn + string) \<Rightarrow> 's \<Rightarrow> (exn \<times> string option) option" where
  "attempt_render parses str self =
     (case str self of
        Inl e \<Rightarrow> Some (e, None)
      | Inr val \<Rightarrow> if parses val then None else Some (SyntaxError, Some val))"

definition report :: "('s \<Rightarrow> exn + string) \<Rightarrow> ('s \<Rightarrow> pe) \<Rightarrow> nat \<Rightarrow> exn \<Rightarrow> string option \<Rightarrow> 's \<Rightarrow> failure" where
  "report str view i e val self =
     (let told = \<lparr>attempt = i, raised = e, surfaced = Some (qualname (view self), val)\<rparr> in
      if qualname_diagnostic (view self) then
        (case str self of
           Inl e' \<Rightarrow> \<lparr>attempt = i, raised = e', surfaced = None\<rparr>
         | Inr r \<Rightarrow> told)
      else told)"

function check_from :: "(string \<Rightarrow> bool) \<Rightarrow> ('s \<Rightarrow> exn + string) \<Rightarrow> ('s \<Rightarrow> pe)
    \<Rightarrow> ('s \<Rightarrow> exn + 's) list \<Rightarrow> nat \<Rightarrow> 's \<Rightarrow> failure + 's" where
  "check_from parses str view fixes i self =
     (case attempt_render parses str self of
        None \<Rightarrow> Inr self
      | Some (e, val) \<Rightarrow>
          (case fix_lookup fixes i of
             Some f \<Rightarrow>
               (case f self of
                  Inl e' \<Rightarrow> Inl \<lparr>attempt = i, raised = e', surfaced = None\<rparr>
                | Inr self' \<Rightarrow> check_from parses str view fixes (Suc i) self')
           | None \<Rightarrow> Inl (report str view i e val self)))"
  by pat_completeness auto
termination
  by (relation "measure (\<lambda>(parses, str, view, fixes, i, self). Suc (length fixes) - i)")
     (auto simp: fix_lookup_def split: if_splits)

declare check_from.simps [simp del]

definition check :: "(string \<Rightarrow> bool) \<Rightarrow> ('s \<Rightarrow> exn + string) \<Rightarrow> ('s \<Rightarrow> pe)
    \<Rightarrow> ('s \<Rightarrow> exn + 's) list \<Rightarrow> 's \<Rightarrow> failure + 's" where
  "check parses str view fixes self = check_from parses str view fixes 1 self"

text \<open>
  A constructor that ends with \<^verbatim>\<open>self.check()\<close> fails when the loop fails.  The name of a
  declaration is \<^verbatim>\<open>xml.find(tag).text\<close>: a node without that child makes the constructor
  raise \<^verbatim>\<open>AttributeError\<close>; a child without text gives the name \<^verbatim>\<open>None\<close>, with which the
  object enters the loop.
\<close>

definition child_text :: "string \<Rightarrow> xml \<Rightarrow> exn + string option" where
  "child_text t x = (case find_child t x of None \<Rightarrow> Inl AttributeError | Some d \<Rightarrow> Inr (x_text d))"

definition propagate :: "failure + 's \<Rightarrow> exn + 's" where
  "propagate r = (case r of Inl f \<Rightarrow> Inl (raised f) | Inr s \<Rightarrow> Inr s)"

fun collect :: "('a \<Rightarrow> exn + 'b) \<Rightarrow> 'a list \<Rightarrow> exn + 'b list" where
  "collect f [] = Inr []"
| "collect f (x # xs) =
     (case f x of
        Inl e \<Rightarrow> Inl e
      | Inr y \<Rightarrow> (case collect f xs of Inl e \<Rightarrow> Inl e | Inr ys \<Rightarrow> Inr (y # ys)))"

subsection \<open>Param\<close>

record 'e param = base +
  p_name :: "string option"
  p_type :: "'e type_expr"
  p_default :: "string option"

text \<open>The rendering joins the name, the type and the default with blanks, and \<^verbatim>\<open>str.join\<close>
  raises \<^verbatim>\<open>TypeError\<close> on a name that is \<^verbatim>\<open>None\<close>; so does the strategy, which
  concatenates.\<close>

definition Param_str :: "'e ctx \<Rightarrow> 'e param \<Rightarrow> exn + string" where
  "Param_str C self =
     (case p_name self of
        None \<Rightarrow> Inl TypeError
      | Some n \<Rightarrow>
          Inr (join '' ''
            ([n]
             @ (if Type_bool C (p_type self) then ['':'', Type_str C (p_type self)] else [])
             @ (case p_default self of
                  None \<Rightarrow> []
                | Some d \<Rightarrow> if d \<noteq> [] then [''='', d] else []))))"

definition Param_fix1 :: "'e param \<Rightarrow> exn + 'e param" where
  "Param_fix1 self =
     (case p_name self of
        None \<Rightarrow> Inl TypeError
      | Some n \<Rightarrow> Inr (self\<lparr>p_name := Some (''_'' @ n)\<rparr>))"

definition Param_fixes :: "('e param \<Rightarrow> exn + 'e param) list" where
  "Param_fixes = [Param_fix1]"

definition param_pe :: "'e param \<Rightarrow> pe" where
  "param_pe p = PE None (Holds (p_name p)) (container p)"

definition contains :: "string \<Rightarrow> string \<Rightarrow> bool" where
  "contains needle s = list_ex (\<lambda>k. startswith (drop k s) needle) [0..<Suc (length s)]"

definition parse_default :: "xml \<Rightarrow> string" where
  "parse_default x =
     (let val = concat (map simple_parse (itertext x)) in
      if contains ''[['' val \<and> \<not> contains '']'' val then replace ''[['' ''<<'' val else val)"

definition Param_init :: "'e ctx \<Rightarrow> (string \<Rightarrow> bool) \<Rightarrow> xml \<Rightarrow> pe option \<Rightarrow> exn + 'e param" where
  "Param_init C parses x c =
     (let name = (case find_child ''declname'' x of
                    None \<Rightarrow> Some ''_''
                  | Some d \<Rightarrow> x_text d);
          ty = Type_init C (find_child ''type'' x);
          dflt = (case find_child ''defval'' x of
                    None \<Rightarrow> None
                  | Some dv \<Rightarrow>
                      if startswith (Type_str C ty) ''Callable'' then Some ''print''
                      else Some (parse_default dv))
      in propagate (check parses (Param_str C) param_pe Param_fixes
           (base.extend (ParsedElement_init x c)
              \<lparr>p_name = name, p_type = ty, p_default = dflt\<rparr>)))"

subsection \<open>Template\<close>

record template = base +
  tp_name :: string
  tp_ignore :: bool

definition Template_str :: "template \<Rightarrow> exn + string" where
  "Template_str self =
     Inr (if tp_ignore self then ''# '' @ tp_name self
          else tp_name self @ '' = TypeVar('' @ squote @ tp_name self @ squote @ '')'')"

definition Template_fix1 :: "template \<Rightarrow> exn + template" where
  "Template_fix1 self = Inr (self\<lparr>tp_name := ''_'' @ tp_name self\<rparr>)"

definition Template_fixes :: "(template \<Rightarrow> exn + template) list" where
  "Template_fixes = [Template_fix1]"

definition template_pe :: "template \<Rightarrow> pe" where
  "template_pe t = PE None (Holds (Some (tp_name t))) (container t)"

text \<open>\<^verbatim>\<open>str.partition(sep)\<close> for a one-character separator: the text before and after
  its first occurrence.\<close>

definition partition_at :: "char \<Rightarrow> string \<Rightarrow> string \<times> string" where
  "partition_at sep s = (takeWhile (\<lambda>c. c \<noteq> sep) s, drop 1 (dropWhile (\<lambda>c. c \<noteq> sep) s))"

text \<open>The constructor strips the name, which raises \<^verbatim>\<open>AttributeError\<close> on \<^verbatim>\<open>None\<close>: a
  Template that reaches the loop has a string as name.\<close>

definition Template_init :: "(string \<Rightarrow> bool) \<Rightarrow> xml \<Rightarrow> pe option \<Rightarrow> exn + template" where
  "Template_init parses x c =
     (case (case find_child ''declname'' x of
              Some d \<Rightarrow> x_text d
            | None \<Rightarrow>
                (let elem = (case find_child ''type'' x of None \<Rightarrow> x | Some t \<Rightarrow> t);
                     (pre, suf) = partition_at CHR '' '' (strip (concat (itertext elem)))
                 in if pre = ''class'' \<or> pre = ''typename'' then Some suf
                    else x_text elem)) of
        None \<Rightarrow> Inl AttributeError
      | Some name \<Rightarrow>
          propagate (check parses Template_str template_pe Template_fixes
            (base.extend (ParsedElement_init x c)
               \<lparr>tp_name = strip name, tp_ignore = contains ''enable_if'' (strip name)\<rparr>)))"

subsection \<open>Function\<close>

record 'e func = base +
  f_name :: "string option"
  f_returnt :: "'e type_expr"
  f_params :: "'e param list"
  f_templ :: "template list"
  f_overloaded :: bool

text \<open>Rendering first renders the parameters, which raises when one of them does, then
  formats the header, in which a name that is \<^verbatim>\<open>None\<close> prints as \<^verbatim>\<open>None\<close>, then reads
  \<^verbatim>\<open>self.brief\<close>, which raises when the node had no brief description.\<close>

definition Function_str :: "'e ctx \<Rightarrow> 'e func \<Rightarrow> exn + string" where
  "Function_str C self =
     (case collect (Param_str C) (f_params self) of
        Inl e \<Rightarrow> Inl e
      | Inr ps \<Rightarrow>
          (let params = join '', '' (''self'' # ps);
               header = ''def '' @ py_format (f_name self) @ ''('' @ params @ '') -> ''
                        @ (if Type_bool C (f_returnt self) then Type_str C (f_returnt self) else ''None'')
                        @ '':''
           in case brief self of
                None \<Rightarrow> Inl AttributeError
              | Some b \<Rightarrow>
                  Inr (join nl
                    ((if f_overloaded self then [''@overload''] else [])
                     @ [header]
                     @ (if b \<noteq> [] then [tab @ dquote @ dquote @ dquote @ b @ dquote @ dquote @ dquote] else [])
                     @ [tab @ ''...'']))))"

definition renames :: "(string \<times> string) list" where
  "renames =
     [(''operator+'', ''__add__''), (''operator-'', ''__sub__''), (''operator*'', ''__mul__''),
      (''operator++'', ''__preinc__''), (''operator--'', ''__predec__''),
      (''operator[]'', ''__getitem__''), (''operator()'', ''__call__''),
      (''operator%'', ''__mod__''), (''operator**'', ''__pow__''),
      (''operator<<'', ''__lshift__''), (''operator>>'', ''__rshift__''),
      (''operator&'', ''__and__''), (''operator&&'', ''__dand__''),
      (''operator|'', ''__or__''), (''operator||'', ''__dor__''),
      (''operator^'', ''__xor__''), (''operator~'', ''__invert__''),
      (''operator,'', ''__comma__''), (''operator+='', ''__iadd__''),
      (''operator-='', ''__isub__''), (''operator*='', ''__imul__''),
      (''operator/='', ''__idiv__''), (''operator%='', ''__imod__''),
      (''operator**='', ''__ipow__''), (''operator<<='', ''__ilshift__''),
      (''operator>>='', ''__irshift__''), (''operator&='', ''__iand__''),
      (''operator|='', ''__ior__''), (''operator^='', ''__ixor__''),
      (''operator=='', ''__eq__''), (''operator!='', ''__ne__''),
      (''operator>'', ''__gt__''), (''operator<'', ''__lt__''),
      (''operator>='', ''__ge__''), (''operator<='', ''__le__''),
      (''operator->'', ''__follow__''), (''operator='', ''__assign__'')]"

text \<open>\<^verbatim>\<open>self.params[0].type == "int"\<close> compares renderings (\<^verbatim>\<open>ParsedElement.__eq__\<close>).\<close>

definition first_param_is :: "'e ctx \<Rightarrow> 'e func \<Rightarrow> string \<Rightarrow> bool" where
  "first_param_is C self s =
     (case f_params self of [p] \<Rightarrow> Type_str C (p_type p) = s | _ \<Rightarrow> False)"

text \<open>
  The first strategy compares the name with strings and looks it up in the table with the
  name itself as default: a name that is \<^verbatim>\<open>None\<close> stays \<^verbatim>\<open>None\<close>.  The other strategies call
  a string method on the name, concatenate it or slice it, and raise on \<^verbatim>\<open>None\<close>:
  \<^verbatim>\<open>AttributeError\<close> for the method calls, \<^verbatim>\<open>TypeError\<close> for concatenation and slicing.
\<close>

definition Function_fix1 :: "'e ctx \<Rightarrow> 'e func \<Rightarrow> exn + 'e func" where
  "Function_fix1 C self =
     (let n0 = f_name self;
          n1 = (if n0 = Some ''operator+'' \<and> f_params self = [] then Some ''__pos__'' else n0);
          n2 = (if n1 = Some ''operator-'' \<and> f_params self = [] then Some ''__neg__'' else n1);
          n3 = (if n2 = Some ''operator*'' \<and> f_params self = [] then Some ''__deref__'' else n2);
          n4 = (if n3 = Some ''operator++'' \<and> first_param_is C self ''int'' then Some ''__postinc__'' else n3);
          n5 = (if n4 = Some ''operator--'' \<and> first_param_is C self ''int'' then Some ''__postdec__'' else n4)
      in Inr (self\<lparr>f_name :=
                (case n5 of
                   None \<Rightarrow> None
                 | Some n \<Rightarrow> Some (case map_of renames n of None \<Rightarrow> n | Some r \<Rightarrow> r))\<rparr>))"

definition Function_fix2 :: "'e func \<Rightarrow> exn + 'e func" where
  "Function_fix2 self =
     (case f_name self of
        None \<Rightarrow> Inl AttributeError
      | Some n \<Rightarrow>
          (let (op, tp) = partition_at CHR '' '' n in
           Inr (if op = ''operator'' \<and> tp \<noteq> [] then self\<lparr>f_name := Some (''__'' @ simple_parse tp @ ''__'')\<rparr>
                else self)))"

definition Function_fix3 :: "'e func \<Rightarrow> exn + 'e func" where
  "Function_fix3 self =
     (case f_name self of
        None \<Rightarrow> Inl AttributeError
      | Some n \<Rightarrow> Inr (if startswith n ''~'' then self\<lparr>f_name := Some ''__destruct__''\<rparr> else self))"

definition Function_fix4 :: "'e func \<Rightarrow> exn + 'e func" where
  "Function_fix4 self =
     (case f_name self of
        None \<Rightarrow> Inl TypeError
      | Some n \<Rightarrow> Inr (self\<lparr>f_name := Some (''_'' @ n)\<rparr>))"

text \<open>The class \<^verbatim>\<open>[a-zA-Z]\<close>, whose complement the last strategy deletes.\<close>

definition is_alpha :: "char \<Rightarrow> bool" where
  "is_alpha c = (let n = of_char c :: nat in (97 \<le> n \<and> n \<le> 122) \<or> (65 \<le> n \<and> n \<le> 90))"

definition strip_non_alpha :: "string \<Rightarrow> string" where
  "strip_non_alpha s = re_sub (Cls (\<lambda>c. \<not> is_alpha c)) [] s"

definition Function_fix5 :: "'e func \<Rightarrow> exn + 'e func" where
  "Function_fix5 self =
     (case f_name self of
        None \<Rightarrow> Inl TypeError
      | Some n \<Rightarrow> Inr (self\<lparr>f_name := Some (strip_non_alpha (drop 1 n))\<rparr>))"

definition Function_fixes :: "'e ctx \<Rightarrow> ('e func \<Rightarrow> exn + 'e func) list" where
  "Function_fixes C = [Function_fix1 C, Function_fix2, Function_fix3, Function_fix4, Function_fix5]"

definition func_pe :: "'e func \<Rightarrow> pe" where
  "func_pe f = PE None (Holds (f_name f)) (container f)"

definition Function_init :: "'e ctx \<Rightarrow> (string \<Rightarrow> bool) \<Rightarrow> xml \<Rightarrow> pe option \<Rightarrow> exn + 'e func" where
  "Function_init C parses x c =
     (case child_text ''name'' x of
        Inl e \<Rightarrow> Inl e
      | Inr name \<Rightarrow>
          (case collect (\<lambda>p. Param_init C parses p c) (iterfind ''param'' x) of
             Inl e \<Rightarrow> Inl e
           | Inr params \<Rightarrow>
               (case (case find_child ''templateparamlist'' x of
                        None \<Rightarrow> Inr []
                      | Some templ \<Rightarrow> collect (\<lambda>p. Template_init parses p c) (iterfind ''param'' templ)) of
                  Inl e \<Rightarrow> Inl e
                | Inr templ \<Rightarrow>
                    propagate (check parses (Function_str C) func_pe (Function_fixes C)
                      (base.extend (ParsedElement_init x c)
                         \<lparr>f_name = name, f_returnt = Type_init C (find_child ''type'' x),
                          f_params = params, f_templ = templ, f_overloaded = False\<rparr>)))))"

subsection \<open>Variable\<close>

text \<open>The type and the value of a Variable are each a Type object or a string (a typedef
  member gets its Type as value and the string \<^verbatim>\<open>TypeAlias\<close> as type).\<close>

record 'e variable = base +
  v_name :: "string option"
  v_type :: "'e part"
  v_value :: "'e part"
  v_overloaded :: bool

definition Variable_str :: "'e ctx \<Rightarrow> 'e variable \<Rightarrow> exn + string" where
  "Variable_str C self =
     (case brief self of
        None \<Rightarrow> Inl AttributeError
      | Some b \<Rightarrow>
          Inr (join nl
            ((if b \<noteq> [] then [''#: '' @ b] else [])
             @ [if part_bool C (v_type self)
                then py_format (v_name self) @ '' : '' @ part_str C (v_type self)
                     @ '' = '' @ part_str C (v_value self)
                else py_format (v_name self) @ '' = '' @ part_str C (v_value self)])))"

text \<open>The strategies concatenate or slice the name: \<^verbatim>\<open>TypeError\<close> on \<^verbatim>\<open>None\<close>.\<close>

definition Variable_fix1 :: "'e variable \<Rightarrow> exn + 'e variable" where
  "Variable_fix1 self =
     (case v_name self of
        None \<Rightarrow> Inl TypeError
      | Some n \<Rightarrow> Inr (self\<lparr>v_name := Some (''_'' @ n)\<rparr>))"

definition Variable_fix2 :: "'e variable \<Rightarrow> exn + 'e variable" where
  "Variable_fix2 self =
     (case v_name self of
        None \<Rightarrow> Inl TypeError
      | Some n \<Rightarrow> Inr (self\<lparr>v_name := Some (strip_non_alpha (drop 1 n))\<rparr>))"

definition Variable_fix3 :: "'e variable \<Rightarrow> exn + 'e variable" where
  "Variable_fix3 self =
     (case v_name self of
        None \<Rightarrow> Inl TypeError
      | Some n \<Rightarrow> Inr (self\<lparr>v_name := Some (''_'' @ n)\<rparr>))"

definition Variable_fixes :: "('e variable \<Rightarrow> exn + 'e variable) list" where
  "Variable_fixes = [Variable_fix1, Variable_fix2, Variable_fix3]"

definition variable_pe :: "'e variable \<Rightarrow> pe" where
  "variable_pe v = PE None (Holds (v_name v)) (container v)"

definition Variable_init :: "'e ctx \<Rightarrow> (string \<Rightarrow> bool) \<Rightarrow> xml \<Rightarrow> pe option \<Rightarrow> exn + 'e variable" where
  "Variable_init C parses x c =
     (case child_text ''name'' x of
        Inl e \<Rightarrow> Inl e
      | Inr name \<Rightarrow>
          propagate (check parses (Variable_str C) variable_pe Variable_fixes
            (base.extend (ParsedElement_init x c)
               \<lparr>v_name = name, v_type = PType (Type_init C (find_child ''type'' x)),
                v_value = PStr ''...'', v_overloaded = False\<rparr>)))"

text \<open>Enum and Class define no strategy.\<close>

definition no_fixes :: "('s \<Rightarrow> exn + 's) list" where
  "no_fixes = []"

subsection \<open>Equality and hashing\<close>

text \<open>
  \<^verbatim>\<open>__eq__\<close> and \<^verbatim>\<open>__hash__\<close> of the base class go through \<^verbatim>\<open>str\<close>, of both operands for
  equality; the other operand may be a plain string.  An Enum or a Class is given here by
  what its \<^verbatim>\<open>__str__\<close> returns.  The hash of a string is a parameter.
\<close>

datatype 'e obj =
    OParam "'e param"
  | OTemplate template
  | OFunction "'e func"
  | OVariable "'e variable"
  | OType "'e type_expr"
  | ORendered "exn + string"
  | OStr string

fun str_of :: "'e ctx \<Rightarrow> 'e obj \<Rightarrow> exn + string" where
  "str_of C (OParam p) = Param_str C p"
| "str_of C (OTemplate t) = Template_str t"
| "str_of C (OFunction f) = Function_str C f"
| "str_of C (OVariable v) = Variable_str C v"
| "str_of C (OType t) = Inr (Type_str C t)"
| "str_of C (ORendered r) = r"
| "str_of C (OStr s) = Inr s"

definition py_eq :: "'e ctx \<Rightarrow> 'e obj \<Rightarrow> 'e obj \<Rightarrow> exn + bool" where
  "py_eq C self other =
     (case str_of C self of
        Inl e \<Rightarrow> Inl e
      | Inr a \<Rightarrow> (case str_of C other of Inl e \<Rightarrow> Inl e | Inr b \<Rightarrow> Inr (a = b)))"

definition py_hash :: "(string \<Rightarrow> int) \<Rightarrow> 'e ctx \<Rightarrow> 'e obj \<Rightarrow> exn + int" where
  "py_hash h C self = (case str_of C self of Inl e \<Rightarrow> Inl e | Inr a \<Rightarrow> Inr (h a))"

text \<open>\<^verbatim>\<open>set.update\<close> on a set of Template objects: an element equal to one already in
  the set is not added.  The set is kept as a list; its order is not Python's.\<close>

definition set_add :: "'e ctx \<Rightarrow> template \<Rightarrow> template list \<Rightarrow> template list" where
  "set_add C t S =
     (if list_ex (\<lambda>u. py_eq C (OTemplate u) (OTemplate t) = Inr True) S then S else S @ [t])"

definition set_update :: "'e ctx \<Rightarrow> template list \<Rightarrow> template list \<Rightarrow> template list" where
  "set_update C S ts = fold (set_add C) ts S"

subsection \<open>Members of a Class and the overload marks\<close>

record 'e enum = base +
  e_qualname :: string
  e_name :: string
  e_strong :: bool
  e_values :: "'e variable list"
  e_overloaded :: bool

datatype 'e member =
    MHeader string
  | MVariable "'e variable"
  | MFunction "'e func"
  | MEnum "'e enum"
  | MType "'e type_expr"

definition member_name :: "'e member \<Rightarrow> string option option" where
  "member_name m =
     (case m of
        MVariable v \<Rightarrow> Some (v_name v)
      | MFunction f \<Rightarrow> Some (f_name f)
      | MEnum e \<Rightarrow> Some (Some (e_name e))
      | _ \<Rightarrow> None)"

definition is_overloaded :: "'e member \<Rightarrow> bool" where
  "is_overloaded m =
     (case m of
        MVariable v \<Rightarrow> v_overloaded v
      | MFunction f \<Rightarrow> f_overloaded f
      | MEnum e \<Rightarrow> e_overloaded e
      | _ \<Rightarrow> False)"

definition set_overloaded :: "'e member \<Rightarrow> 'e member" where
  "set_overloaded m =
     (case m of
        MVariable v \<Rightarrow> MVariable (v\<lparr>v_overloaded := True\<rparr>)
      | MFunction f \<Rightarrow> MFunction (f\<lparr>f_overloaded := True\<rparr>)
      | MEnum e \<Rightarrow> MEnum (e\<lparr>e_overloaded := True\<rparr>)
      | _ \<Rightarrow> m)"

text \<open>
  The part of \<^verbatim>\<open>Class.__init__\<close> that follows the construction of the members.  Members
  are objects shared between the member list and the lists of the \<^verbatim>\<open>namespace\<close> multimap;
  the model keeps them in the member list and the multimap holds their positions.  The
  multimap is an insertion-ordered dictionary.
\<close>

record 'e scope =
  members :: "'e member list"
  namespace :: "(string option \<times> nat list) list"
  templates :: "template list"
  subtypes :: "'e type_expr list"

fun ns_append :: "string option \<Rightarrow> nat \<Rightarrow> (string option \<times> nat list) list
    \<Rightarrow> (string option \<times> nat list) list" where
  "ns_append n i [] = [(n, [i])]"
| "ns_append n i ((k, v) # rest) = (if k = n then (k, v @ [i]) # rest else (k, v) # ns_append n i rest)"

definition claim_constructor :: "string \<Rightarrow> 'e member \<Rightarrow> 'e member" where
  "claim_constructor name m =
     (case m of
        MFunction f \<Rightarrow> MFunction (if f_name f = Some name then f\<lparr>f_name := Some ''__init__''\<rparr> else f)
      | _ \<Rightarrow> m)"

definition visit :: "'e ctx \<Rightarrow> string \<Rightarrow> nat \<Rightarrow> 'e scope \<Rightarrow> 'e scope" where
  "visit C name i st =
     (let m = members st ! i;
          m1 = claim_constructor name m;
          tps = (case m of
                   MFunction f \<Rightarrow> set_update C (templates st) (f_templ f)
                 | _ \<Rightarrow> templates st);
          ns = (case member_name m1 of
                  Some n \<Rightarrow> ns_append n i (namespace st)
                | None \<Rightarrow> namespace st);
          sts = (case m1 of MType t \<Rightarrow> subtypes st @ [t] | _ \<Rightarrow> subtypes st)
      in \<lparr>members = (members st)[i := m1], namespace = ns, templates = tps, subtypes = sts\<rparr>)"

definition mark_group :: "nat list \<Rightarrow> 'e member list \<Rightarrow> 'e member list" where
  "mark_group idxs ms = fold (\<lambda>i ms. ms[i := set_overloaded (ms ! i)]) idxs ms"

definition mark_item :: "string option \<times> nat list \<Rightarrow> 'e member list \<Rightarrow> 'e member list" where
  "mark_item item ms = (if length (snd item) > 1 then mark_group (snd item) ms else ms)"

definition Class_scan :: "'e ctx \<Rightarrow> string \<Rightarrow> template list \<Rightarrow> 'e member list \<Rightarrow> 'e scope" where
  "Class_scan C name generic ms =
     (let st = fold (visit C name) [0..<length ms]
                 \<lparr>members = ms, namespace = [], templates = set_update C [] generic, subtypes = []\<rparr>
      in st\<lparr>members := fold mark_item (namespace st) (members st)\<rparr>)"

subsection \<open>A stand-in for the parser in closed examples\<close>

text \<open>
  Examples need some parser.  This one is not Python's grammar; it looks only at the
  declared name: the text after an optional \<^verbatim>\<open>def\<close>, up to the first blank or
  parenthesis, must be made of word characters, not start with a digit and not be one of
  the constants \<^verbatim>\<open>None\<close>, \<^verbatim>\<open>True\<close>, \<^verbatim>\<open>False\<close>.
\<close>

definition is_identifier :: "string \<Rightarrow> bool" where
  "is_identifier s =
     (s \<noteq> [] \<and> \<not> is_digit (hd s) \<and> list_all is_word s
      \<and> s \<notin> set [''None'', ''True'', ''False''])"

definition names_identifier :: "string \<Rightarrow> bool" where
  "names_identifier s =
     (let body = (case strip_prefix ''def '' s of Some r \<Rightarrow> r | None \<Rightarrow> s)
      in is_identifier (takeWhile (\<lambda>c. c \<noteq> CHR '' '' \<and> c \<noteq> CHR ''('') body))"

section \<open>Concrete inputs for the examples\<close>

definition plain_ctx :: "pe ctx" where
  "plain_ctx = \<lparr>INSTANCES = Map.empty, NAMESPACE = Map.empty, truthy = (\<lambda>e. True), qualname_of = qualname\<rparr>"

definition graph_pe :: pe where
  "graph_pe = PE (Some ''ogdf.Graph'') (Holds (Some ''Graph'')) None"

definition ref_node :: xml where
  "ref_node = Element ''ref'' [(''refid'', ''classogdf_1_1Graph''), (''kindref'', ''compound'')]
                (Some ''Graph'') [] None"

definition type_node :: xml where
  "type_node = Element ''type'' [] None [ref_node] None"

definition ref_type :: "pe type_expr" where
  "ref_type = Type (Some ref_node) [] [PStr ''Graph''] None"

definition nested_type :: "pe type_expr" where
  "nested_type = Type (Some type_node) [] [PType ref_type] None"

definition id_ctx :: "pe ctx" where
  "id_ctx = plain_ctx\<lparr>INSTANCES := [''classogdf_1_1Graph'' \<mapsto> graph_pe]\<rparr>"


definition digit_template :: template where
  "digit_template = \<lparr>container = None, brief = None, tp_name = ''1T'', tp_ignore = False\<rparr>"

definition index_operator_node :: xml where
  "index_operator_node =
     Element ''memberdef'' [(''kind'', ''function''), (''id'', ''classogdf_1_1Array_1a0'')] None
       [Element ''type'' [] None [] None,
        Element ''name'' [] (Some ''operator[]'') [] None,
        Element ''param'' [] None [Element ''type'' [] (Some ''int'') [] None] None,
        Element ''briefdescription'' [] None [] None] None"

definition draw_node :: xml where
  "draw_node =
     Element ''memberdef'' [(''kind'', ''function''), (''id'', ''classogdf_1_1Graph_1a1'')] None
       [Element ''type'' [] (Some ''void'') [] None,
        Element ''name'' [] (Some ''draw'') [] None,
        Element ''briefdescription'' [] None [] None] None"

text \<open>The positions, among the first \<open>k\<close> members, of those named \<open>nm\<close>.\<close>

definition positions :: "'e member list \<Rightarrow> string option \<Rightarrow> nat \<Rightarrow> nat list" where
  "positions ms nm k = filter (\<lambda>i. member_name (ms ! i) = Some nm) [0..<k]"

definition graph_scope_members :: "pe member list" where
  "graph_scope_members =
     [MFunction \<lparr>container = None, brief = Some [], f_name = Some ''Graph'', f_returnt = Type None [] [] None,
                 f_params = [], f_templ = [], f_overloaded = False\<rparr>,
      MHeader ''# Drawing'',
      MFunction \<lparr>container = None, brief = Some [], f_name = Some ''draw'', f_returnt = Type None [] [] None,
                 f_params = [], f_templ = [], f_overloaded = False\<rparr>,
      MFunction \<lparr>container = None, brief = Some [], f_name = Some ''Graph'', f_returnt = Type None [] [] None,
                 f_params = [\<lparr>container = None, brief = None, p_name = Some ''n'',
                              p_type = Type None [] [PStr ''int''] None, p_default = None\<rparr>],
                 f_templ = [], f_overloaded = False\<rparr>]"

section \<open>Notions used in the statements about the repair loop\<close>

text \<open>The strategies of a list applied in order, up to the first one that raises.\<close>

fun strategies_applied :: "('s \<Rightarrow> exn + 's) list \<Rightarrow> 's \<Rightarrow> exn + 's" where
  "strategies_applied [] s = Inr s"
| "strategies_applied (g # gs) s =
     (case g s of Inl e \<Rightarrow> Inl e | Inr t \<Rightarrow> strategies_applied gs t)"

text \<open>A parameter node whose \<^verbatim>\<open>declname\<close> child has no text, and the object its
  constructor hands to the loop.\<close>

definition nameless_param_node :: xml where
  "nameless_param_node =
     Element ''param'' [] None
       [Element ''type'' [] (Some ''int'') [] None, Element ''declname'' [] None [] None] None"

text \<open>Member nodes whose \<^verbatim>\<open>name\<close> child has no text, and member nodes without brief
  description.\<close>

definition nameless_function_node :: xml where
  "nameless_function_node =
     Element ''memberdef'' [(''kind'', ''function'')] None
       [Element ''type'' [] (Some ''void'') [] None,
        Element ''name'' [] None [] None,
        Element ''briefdescription'' [] None [] None] None"

definition nameless_variable_node :: xml where
  "nameless_variable_node =
     Element ''memberdef'' [(''kind'', ''variable'')] None
       [Element ''type'' [] (Some ''int'') [] None,
        Element ''name'' [] None [] None,
        Element ''briefdescription'' [] None [] None] None"

definition undocumented_function_node :: "string \<Rightarrow> xml" where
  "undocumented_function_node n =
     Element ''memberdef'' [(''kind'', ''function'')] None
       [Element ''type'' [] (Some ''void'') [] None,
        Element ''name'' [] (Some n) [] None] None"

definition undocumented_function :: "string \<Rightarrow> pe func" where
  "undocumented_function n =
     \<lparr>container = None, brief = None, f_name = Some n,
      f_returnt = Type (Some (Element ''type'' [] (Some ''void'') [] None)) [] [PStr ''None''] None,
      f_params = [], f_templ = [], f_overloaded = False\<rparr>"

definition int_param :: "pe param" where
  "int_param =
     \<lparr>container = None, brief = None, p_name = Some ''n'',
      p_type = Type (Some (Element ''type'' [] (Some ''int'') [] None)) [] [PStr ''int''] None,
      p_default = None\<rparr>"

definition count_variable :: "pe variable" where
  "count_variable =
     \<lparr>container = None, brief = Some [], v_name = Some ''count'',
      v_type = PType (Type (Some (Element ''type'' [] (Some ''int'') [] None)) [] [PStr ''int''] None),
      v_value = PStr ''...'', v_overloaded = False\<rparr>"

definition nameless_param :: "pe param" where
  "nameless_param =
     \<lparr>container = None, brief = None, p_name = None,
      p_type = Type (Some (Element ''type'' [] (Some ''int'') [] None)) [] [PStr ''int''] None,
      p_default = None\<rparr>"

section \<open>Notions used in the proofs about the translator\<close>

text \<open>The characters a pattern can consume, and whether it can match the empty string.\<close>

primrec alphabet :: "regex \<Rightarrow> char set" where
  "alphabet (Chr c) = {c}"
| "alphabet (Cls P) = {c. P c}"
| "alphabet Eps = {}"
| "alphabet WordB = {}"
| "alphabet Bol = {}"
| "alphabet (Seq a b) = alphabet a \<union> alphabet b"
| "alphabet (Alt a b) = alphabet a \<union> alphabet b"
| "alphabet (Star a) = alphabet a"

primrec nullable :: "regex \<Rightarrow> bool" where
  "nullable (Chr c) = False"
| "nullable (Cls P) = False"
| "nullable Eps = True"
| "nullable WordB = True"
| "nullable Bol = True"
| "nullable (Seq a b) = (nullable a \<and> nullable b)"
| "nullable (Alt a b) = (nullable a \<or> nullable b)"
| "nullable (Star a) = True"

text \<open>Position \<open>q'\<close> lies after \<open>q\<close>, and the text between them uses characters of \<open>A\<close> only.\<close>

definition consumes :: "char set \<Rightarrow> pos \<Rightarrow> pos \<Rightarrow> bool" where
  "consumes A q q' =
     (\<exists>m. snd q = m @ snd q' \<and> fst q' = (if m = [] then fst q else Some (last m)) \<and> set m \<subseteq> A)"

text \<open>The position after the first \<open>k\<close> characters of a text, and whether a pattern
  matches somewhere in a text; \<open>has_word w\<close> is the test of \<^verbatim>\<open>\bw\b\<close>.\<close>

definition pos_at :: "string \<Rightarrow> nat \<Rightarrow> pos" where
  "pos_at s k = (if k = 0 then None else Some (s ! (k - 1)), drop k s)"

definition matches_somewhere :: "regex \<Rightarrow> string \<Rightarrow> bool" where
  "matches_somewhere r s = list_ex (\<lambda>k. ends r (pos_at s k) \<noteq> []) [0..<Suc (length s)]"

definition has_word :: "string \<Rightarrow> string \<Rightarrow> bool" where
  "has_word w s = matches_somewhere (kw (lits w)) s"

text \<open>The position \<open>k\<close> characters after a position.\<close>

definition advance :: "pos \<Rightarrow> nat \<Rightarrow> pos" where
  "advance q k = (if k = 0 then fst q else Some (snd q ! (k - 1)), drop k (snd q))"

text \<open>Keywords of more than one word and markers that the rules of the translator name.\<close>

definition rule_keywords :: "string list" where
  "rule_keywords =
     [''const char *'', ''char *'', ''::'', ''<'', ''>'', ''&'', ''*'', ''...'',
      ''unsigned int'', ''long int'', ''unsigned long long'',
      ''std::string'', ''std::vector'', ''std::pair'', ''std::map'', ''std::unordered_map'']"



text \<open>
  The keyword rules of the translator in their order, each a pattern and its replacement;
  an input that is one word; and the texts the translator emits for a word it rewrites.  A
  pattern is \<open>word_guarded\<close> when it is not nullable and every match starts at a word boundary
  or at the start of the text and ends at a word boundary.
\<close>

definition keyword_rules :: "(regex \<times> string) list" where
  "keyword_rules =
     [(re_const, ''''), (kw (lits ''volatile''), ''''), (kw (lits ''void''), ''None''),
      (re_fixed_int, ''int''), (kw (lits ''unsigned''), ''''), (re_native_int, '' int''),
      (kw (lits ''double''), ''float''), (re_std ''string'', ''str''),
      (re_std ''vector'', ''List''), (re_std ''pair'', ''Tuple''), (re_map, ''Dict''),
      (kw (lits ''true''), ''True''), (kw (lits ''false''), ''False''),
      (kw (lits ''nullptr''), ''None''), (kw (lits ''NULL''), ''None''),
      (re_bol ''class'', ''''), (re_bol ''typename'', '''')]"

definition single_word :: "string \<Rightarrow> bool" where
  "single_word s = (s \<noteq> [] \<and> list_all is_word s)"

text \<open>The texts that the rules, applied in order, make of the replacements written so far.\<close>

fun track :: "(regex \<times> string) list \<Rightarrow> string list \<Rightarrow> string list" where
  "track [] G = G"
| "track ((r, repl) # rules) G = track rules (repl # map (re_sub r repl) G)"

definition emitted :: "string list" where
  "emitted = ['''', ''None'', ''int'', ''float'', ''str'', ''List'', ''Tuple'', ''Dict'', ''True'', ''False'']"

definition word_guarded :: "regex \<Rightarrow> bool" where
  "word_guarded r =
     ((\<forall>q. ends r q \<noteq> [] \<longrightarrow> wordb q \<or> fst q = None)
      \<and> (\<forall>q q'. q' \<in> set (ends r q) \<longrightarrow> wordb q') \<and> \<not> nullable r)"

section \<open>Rendering and truth value of a Type\<close>

text \<open>
  C7.  A Type renders as its override when that is non-empty, else as the qualified name of
  its target when it has one, else as the concatenation of its parts when it has any, else
  as \<^verbatim>\<open>Any\<close>; it is true exactly when it has a part, a non-empty override or a target, and
  a Type that is not true renders as \<^verbatim>\<open>Any\<close>.  The target, when there is one, is an object
  that Python takes for true, as every declaration entity is.
\<close>

theorem Type_rendering_precedence:
  assumes "\<And>e. target t = Some e \<Longrightarrow> truthy C e"
  shows "Type_str C t =
           (if override t \<noteq> [] then override t
            else case target t of
                   Some e \<Rightarrow> qualname_of C e
                 | None \<Rightarrow> if parts t \<noteq> [] then concat (map (part_str C) (parts t)) else ''Any'')
         \<and> (Type_bool C t \<longleftrightarrow> parts t \<noteq> [] \<or> override t \<noteq> [] \<or> target t \<noteq> None)
         \<and> (\<not> Type_bool C t \<longrightarrow> Type_str C t = ''Any'')"
  using assms by (cases t) (auto simp: Type_bool_def target_truthy_def split: option.splits)

theorem Type_rendering_precedence_witness:
  "Type_str plain_ctx (Type None [] [PStr ''int''] (Some graph_pe)) = ''ogdf.Graph''
   \<and> Type_bool plain_ctx (Type None [] [PStr ''int''] (Some graph_pe))
   \<and> Type_str plain_ctx (Type None [] [] None) = ''Any''
   \<and> \<not> Type_bool plain_ctx (Type None [] [] None)"
  using Type_rendering_precedence [of "Type None [] [PStr ''int''] (Some graph_pe)" plain_ctx]
        Type_rendering_precedence [of "Type None [] [] None" plain_ctx]
  by (simp add: plain_ctx_def graph_pe_def)

section \<open>Resolution of a Type\<close>

lemma resolve_xml [simp]: "t_xml (resolve C t) = t_xml t"
  by (cases t) (simp add: Let_def)

lemma is_empty_resolve [simp]: "is_empty (resolve C t) = is_empty t"
  by (simp add: is_empty_def)

lemma refid_resolve [simp]: "refid (resolve C t) = refid t"
  by (simp add: refid_def)

lemma part_qualname_resolve [simp]: "part_qualname (resolve_part C p) = part_qualname p"
  by (cases p) (simp_all add: part_qualname_def)

lemma bind_target_map:
  "bind_target C r (map (resolve_part C) ps) = bind_target C r ps"
  by (cases ps) (simp_all add: bind_target_def Let_def)

lemma bind_target_map2:
  "bind_target C r (map (resolve_part C \<circ> resolve_part C) ps) = bind_target C r ps"
  by (cases ps) (simp_all add: bind_target_def Let_def)

lemma resolve_idem:
  "resolve C (resolve C t) = resolve C t"
  "resolve_part C (resolve_part C p) = resolve_part C p"
proof (induction C t and C p rule: resolve_resolve_part.induct)
  case (1 C x ov ps tg)
  show ?case
  proof (cases "is_empty (Type x ov ps tg)")
    case True
    then show ?thesis by simp
  next
    case False
    then have ne: "\<not> is_empty (Type x ov (map (resolve_part C) ps) tg')" for tg'
      by (simp add: is_empty_def)
    have m: "map (resolve_part C \<circ> resolve_part C) ps = map (resolve_part C) ps"
      using "1.IH" [OF False] by simp
    have r: "refid (Type x ov (map (resolve_part C) ps) tg') = refid (Type x ov ps tg)" for tg'
      by (simp add: refid_def)
    show ?thesis
      using False ne m r by (simp add: Let_def bind_target_map bind_target_map2)
  qed
qed simp_all

lemma consistent_resolve:
  "consistent t \<Longrightarrow> consistent (resolve C t)"
  "consistent_part p \<Longrightarrow> consistent_part (resolve_part C p)"
proof (induction C t and C p rule: resolve_resolve_part.induct)
  case (1 C x ov ps tg)
  show ?case
  proof (cases "is_empty (Type x ov ps tg)")
    case True
    with "1.prems" show ?thesis by simp
  next
    case False
    then have ne: "\<not> is_empty (Type x ov (map (resolve_part C) ps) tg')" for tg'
      by (simp add: is_empty_def)
    have "list_all consistent_part (map (resolve_part C) ps)"
      using "1.IH" [OF False] "1.prems" by (auto simp: list_all_iff)
    with False ne show ?thesis by (simp add: Let_def)
  qed
qed simp_all

lemma is_resolvable_target: "target (snd (is_resolvable C t)) = target (resolve C t)"
  by (cases "resolve C t")
     (auto simp: is_resolvable.simps [of C t] split: list.splits part.splits prod.splits)

lemma is_resolvable_state:
  assumes "consistent t"
  shows "snd (is_resolvable C t) = resolve C t"
  using assms
proof (induction C t rule: is_resolvable.induct)
  case (1 C t)
  obtain x ov ps tg where r: "resolve C t = Type x ov ps tg"
    by (cases "resolve C t") auto
  show ?case
  proof (cases "tg \<noteq> None")
    case True
    with r show ?thesis by (simp add: is_resolvable.simps [of C t])
  next
    case False
    note tg = this
    show ?thesis
    proof (cases ps)
      case Nil
      with r tg show ?thesis by (simp add: is_resolvable.simps [of C t])
    next
      case (Cons p rest)
      show ?thesis
      proof (cases p)
        case (PStr s)
        with r tg Cons show ?thesis by (simp add: is_resolvable.simps [of C t])
      next
        case (PType u)
        have "consistent (resolve C t)"
          using "1.prems" by (rule consistent_resolve)
        with r Cons PType have cu: "consistent u" and ne: "\<not> is_empty (Type x ov ps tg)"
          by auto
        have "resolve C (Type x ov ps tg) = Type x ov ps tg"
          using resolve_idem(1) [of C t] r by simp
        with ne Cons PType have ru: "resolve C u = u"
          by (simp add: Let_def)
        have ih: "snd (is_resolvable C u) = resolve C u"
          using "1.IH" [OF r _ Cons PType cu] tg by simp
        with ru have "snd (is_resolvable C u) = u" by simp
        with r tg Cons PType show ?thesis
          by (cases "is_resolvable C u") (simp add: is_resolvable.simps [of C t])
      qed
    qed
  qed
qed


lemma Type_qualname_placeholder: "qualname Type_pe = ''???''"
  by (simp add: Type_pe_def)

lemma part_qualname_cases: "part_qualname p = None \<or> part_qualname p = Some ''???''"
  by (cases p) (simp_all add: part_qualname_def Type_pe_def)



text \<open>
  C8.  Resolving twice against the same context gives what resolving once gives, for the
  Type and for all its parts; an \<^verbatim>\<open>is_resolvable\<close> probe leaves the target that \<^verbatim>\<open>resolve\<close> set,
  also on a Type already resolved; and on a Type as construction leaves it (no parts on an
  empty node) the probe leaves the whole Type as \<^verbatim>\<open>resolve\<close> leaves it.
\<close>

theorem resolve_idempotent:
  "resolve C (resolve C t) = resolve C t
   \<and> target (resolve C (resolve C t)) = target (resolve C t)
   \<and> target (snd (is_resolvable C t)) = target (resolve C t)
   \<and> target (snd (is_resolvable C (resolve C t))) = target (resolve C t)
   \<and> (consistent t \<longrightarrow> snd (is_resolvable C t) = resolve C t
                        \<and> snd (is_resolvable C (resolve C t)) = resolve C t)"
  by (simp add: resolve_idem is_resolvable_target is_resolvable_state consistent_resolve)

theorem resolve_idempotent_witness:
  "consistent nested_type
   \<and> snd (is_resolvable id_ctx nested_type) = resolve id_ctx nested_type
   \<and> resolve id_ctx (resolve id_ctx nested_type) = resolve id_ctx nested_type
   \<and> target (resolve id_ctx ref_type) = Some graph_pe
   \<and> target (snd (is_resolvable id_ctx (resolve id_ctx ref_type))) = Some graph_pe"
proof -
  have c: "consistent nested_type"
    by (simp add: nested_type_def ref_type_def is_empty_def type_node_def ref_node_def)
  have t: "target (resolve id_ctx ref_type) = Some graph_pe"
    by (simp add: ref_type_def is_empty_def ref_node_def Let_def bind_target_def id_ctx_def
        plain_ctx_def refid_def attrib_get_def target_truthy_def)
  show ?thesis
    using resolve_idempotent [of id_ctx nested_type] resolve_idempotent [of id_ctx ref_type] c t
    by simp
qed

section \<open>The repair loop\<close>

lemma check_from_Inr:
  "check_from parses str view fxs i self = Inr fin \<Longrightarrow> attempt_render parses str fin = None"
proof (induction parses str view fxs i self rule: check_from.induct)
  case (1 parses str view fxs i self)
  show ?case
  proof (cases "attempt_render parses str self")
    case None
    with "1.prems" show ?thesis
      by (simp add: check_from.simps [of parses str view fxs i self])
  next
    case (Some ev)
    obtain e val where ev: "ev = (e, val)" by (cases ev)
    from Some ev "1.prems" obtain g t where g: "fix_lookup fxs i = Some g" "g self = Inr t"
      and rec: "check_from parses str view fxs (Suc i) t = Inr fin"
      by (auto simp: check_from.simps [of parses str view fxs i self] split: option.splits sum.splits)
    show ?thesis using "1.IH" [OF Some ev [symmetric] g rec] .
  qed
qed

lemma check_from_Inl:
  "check_from parses str view fxs i self = Inl f \<Longrightarrow> 1 \<le> i \<Longrightarrow> i \<le> Suc (length fxs) \<Longrightarrow>
     i \<le> attempt f \<and> attempt f \<le> Suc (length fxs) \<and>
     (\<exists>s ev. strategies_applied (take (attempt f - i) (drop (i - 1) fxs)) self = Inr s
        \<and> attempt_render parses str s = Some ev
        \<and> (case fix_lookup fxs (attempt f) of
             Some g \<Rightarrow> g s = Inl (raised f) \<and> surfaced f = None
           | None \<Rightarrow> f = report str view (attempt f) (fst ev) (snd ev) s))"
proof (induction parses str view fxs i self rule: check_from.induct)
  case (1 parses str view fxs i self)
  show ?case
  proof (cases "attempt_render parses str self")
    case None
    with "1.prems" show ?thesis by (simp add: check_from.simps [of parses str view fxs i self])
  next
    case (Some ev)
    obtain e val where ev: "ev = (e, val)" by (cases ev)
    show ?thesis
    proof (cases "fix_lookup fxs i")
      case None
      with "1.prems" have i: "i = Suc (length fxs)" by (auto simp: fix_lookup_def split: if_splits)
      from None Some ev "1.prems" have f: "f = report str view i e val self"
        by (simp add: check_from.simps [of parses str view fxs i self])
      then have a: "attempt f = i"
        by (simp add: report_def Let_def split: sum.splits)
      show ?thesis using a i None Some ev f by simp
    next
      case g: (Some g)
      then have i: "i \<le> length fxs" and gdef: "g = fxs ! (i - 1)"
        by (auto simp: fix_lookup_def split: if_splits)
      show ?thesis
      proof (cases "g self")
        case (Inl e')
        with g Some ev "1.prems" have f: "f = \<lparr>attempt = i, raised = e', surfaced = None\<rparr>"
          by (simp add: check_from.simps [of parses str view fxs i self])
        show ?thesis using f i g Some Inl by simp
      next
        case (Inr t)
        with g Some ev "1.prems"
        have rec: "check_from parses str view fxs (Suc i) t = Inl f"
          by (simp add: check_from.simps [of parses str view fxs i self])
        have ih: "Suc i \<le> attempt f \<and> attempt f \<le> Suc (length fxs) \<and>
            (\<exists>s ev. strategies_applied (take (attempt f - Suc i) (drop (Suc i - 1) fxs)) t = Inr s
               \<and> attempt_render parses str s = Some ev
               \<and> (case fix_lookup fxs (attempt f) of
                    Some g \<Rightarrow> g s = Inl (raised f) \<and> surfaced f = None
                  | None \<Rightarrow> f = report str view (attempt f) (fst ev) (snd ev) s))"
          using "1.IH" [OF Some ev [symmetric] g Inr rec] i by simp
        have d: "drop (i - 1) fxs = g # drop i fxs"
          using i gdef "1.prems"(2) by (metis Cons_nth_drop_Suc One_nat_def Suc_pred less_eq_Suc_le)
        from ih have "Suc i \<le> attempt f" by simp
        then have "attempt f - i = Suc (attempt f - Suc i)" by arith
        then have "strategies_applied (take (attempt f - i) (drop (i - 1) fxs)) self
                     = strategies_applied (take (attempt f - Suc i) (drop (Suc i - 1) fxs)) t"
          using d Inr by simp
        with ih show ?thesis by auto
      qed
    qed
  qed
qed

lemma check_Inl:
  assumes "check parses str view fxs self = Inl f"
  shows "1 \<le> attempt f \<and> attempt f \<le> Suc (length fxs) \<and>
     (\<exists>s ev. strategies_applied (take (attempt f - 1) fxs) self = Inr s
        \<and> attempt_render parses str s = Some ev
        \<and> (case fix_lookup fxs (attempt f) of
             Some g \<Rightarrow> g s = Inl (raised f) \<and> surfaced f = None
           | None \<Rightarrow> f = report str view (attempt f) (fst ev) (snd ev) s))"
  using check_from_Inl [of parses str view fxs 1 self f] assms by (simp add: check_def)

lemma strategies_applied_keeps:
  assumes "\<And>g s. g \<in> set gs \<Longrightarrow> P s \<Longrightarrow> \<exists>t. g s = Inr t \<and> P t"
      and "P s"
  shows "\<exists>t. strategies_applied gs s = Inr t \<and> P t"
  using assms
proof (induction gs arbitrary: s)
  case Nil
  then show ?case by simp
next
  case (Cons g gs)
  from Cons.prems obtain t where t: "g s = Inr t" "P t" by (meson list.set_intros(1))
  have "\<exists>u. strategies_applied gs t = Inr u \<and> P u"
  proof (rule Cons.IH)
    show "\<exists>t. h s = Inr t \<and> P t" if "h \<in> set gs" "P s" for h s
      using Cons.prems(1) [of h s] that by simp
    show "P t" by (rule t)
  qed
  with t show ?case by simp
qed

text \<open>
  When no strategy of the class raises on the states the object can be in, the loop ends in
  one of two ways only: it succeeds, or it fails at the first number without a strategy.
\<close>

lemma check_without_raising_strategies:
  assumes total: "\<And>g s. g \<in> set fxs \<Longrightarrow> P s \<Longrightarrow> \<exists>t. g s = Inr t \<and> P t"
      and self: "P self"
  shows "(case check parses str view fxs self of
            Inr fin \<Rightarrow> (\<exists>val. str fin = Inr val \<and> parses val)
          | Inl f \<Rightarrow> attempt f = Suc (length fxs))"
proof (cases "check parses str view fxs self")
  case (Inr fin)
  then have "attempt_render parses str fin = None"
    unfolding check_def by (rule check_from_Inr)
  then have "\<exists>val. str fin = Inr val \<and> parses val"
    by (auto simp: attempt_render_def split: sum.splits if_splits)
  with Inr show ?thesis by simp
next
  case (Inl f)
  from check_Inl [OF Inl] obtain s where a: "1 \<le> attempt f" "attempt f \<le> Suc (length fxs)"
    and s: "strategies_applied (take (attempt f - 1) fxs) self = Inr s"
    and c: "(case fix_lookup fxs (attempt f) of
               Some g \<Rightarrow> g s = Inl (raised f)
             | None \<Rightarrow> True)"
    by (auto split: option.splits)
  have "\<exists>t. strategies_applied (take (attempt f - 1) fxs) self = Inr t \<and> P t"
  proof (rule strategies_applied_keeps)
    show "\<exists>t. g s = Inr t \<and> P t" if "g \<in> set (take (attempt f - 1) fxs)" "P s" for g s
      using total [of g s] that by (auto dest: in_set_takeD)
    show "P self" by (rule self)
  qed
  with s have ps: "P s" by simp
  have "fix_lookup fxs (attempt f) = None"
  proof (rule ccontr)
    assume "fix_lookup fxs (attempt f) \<noteq> None"
    then obtain g where g: "fix_lookup fxs (attempt f) = Some g" by auto
    then have "g \<in> set fxs" by (auto simp: fix_lookup_def split: if_splits)
    with total [of g s] ps obtain t where "g s = Inr t" by auto
    with c g show False by simp
  qed
  with a have "attempt f = Suc (length fxs)" by (auto simp: fix_lookup_def split: if_splits)
  with Inl show ?thesis by simp
qed

text \<open>
  The strategies of the four classes raise on a name that is \<^verbatim>\<open>None\<close> only (the first
  strategy of a Function not even then), and leave a string as name.  So an object whose
  name is a string leaves the loop in one of the two ways.
\<close>

lemma Param_strategies:
  "g \<in> set Param_fixes \<Longrightarrow> p_name s \<noteq> None \<Longrightarrow> \<exists>t. g s = Inr t \<and> p_name t \<noteq> None"
  by (auto simp: Param_fixes_def Param_fix1_def split: option.splits)

lemma Template_strategies:
  "g \<in> set Template_fixes \<Longrightarrow> \<exists>t. g s = Inr t"
  by (auto simp: Template_fixes_def Template_fix1_def)

lemma Function_strategies:
  "g \<in> set (Function_fixes C) \<Longrightarrow> f_name s \<noteq> None \<Longrightarrow> \<exists>t. g s = Inr t \<and> f_name t \<noteq> None"
  by (auto simp: Function_fixes_def Function_fix1_def Function_fix2_def Function_fix3_def
      Function_fix4_def Function_fix5_def Let_def split: option.splits prod.splits)

lemma Variable_strategies:
  "g \<in> set Variable_fixes \<Longrightarrow> v_name s \<noteq> None \<Longrightarrow> \<exists>t. g s = Inr t \<and> v_name t \<noteq> None"
  by (auto simp: Variable_fixes_def Variable_fix1_def Variable_fix2_def Variable_fix3_def
      split: option.splits)

lemma strategies_raise_on_None:
  "(Param_fix1 p = Inl e \<longleftrightarrow> p_name p = None \<and> e = TypeError)
   \<and> Function_fix1 C f \<noteq> Inl e
   \<and> (Function_fix2 f = Inl e \<longleftrightarrow> f_name f = None \<and> e = AttributeError)
   \<and> (Function_fix3 f = Inl e \<longleftrightarrow> f_name f = None \<and> e = AttributeError)
   \<and> (Function_fix4 f = Inl e \<longleftrightarrow> f_name f = None \<and> e = TypeError)
   \<and> (Function_fix5 f = Inl e \<longleftrightarrow> f_name f = None \<and> e = TypeError)
   \<and> (Variable_fix1 v = Inl e \<longleftrightarrow> v_name v = None \<and> e = TypeError)
   \<and> (Variable_fix2 v = Inl e \<longleftrightarrow> v_name v = None \<and> e = TypeError)
   \<and> (Variable_fix3 v = Inl e \<longleftrightarrow> v_name v = None \<and> e = TypeError)
   \<and> Template_fix1 u \<noteq> Inl e"
  by (auto simp: Param_fix1_def Function_fix1_def Function_fix2_def Function_fix3_def
      Function_fix4_def Function_fix5_def Variable_fix1_def Variable_fix2_def Variable_fix3_def
      Template_fix1_def Let_def split: option.splits prod.splits)

lemma named_objects_two_ways:
  fixes p :: "'e param" and f :: "'e func" and v :: "'e variable"
  shows
  "(p_name p \<noteq> None \<longrightarrow>
      (case check parses (Param_str C) param_pe Param_fixes p of
         Inr fin \<Rightarrow> (\<exists>val. Param_str C fin = Inr val \<and> parses val)
       | Inl r \<Rightarrow> attempt r = 2))
   \<and> (case check parses Template_str template_pe Template_fixes u of
         Inr fin \<Rightarrow> (\<exists>val. Template_str fin = Inr val \<and> parses val)
       | Inl r \<Rightarrow> attempt r = 2)
   \<and> (f_name f \<noteq> None \<longrightarrow>
      (case check parses (Function_str C) func_pe (Function_fixes C) f of
         Inr fin \<Rightarrow> (\<exists>val. Function_str C fin = Inr val \<and> parses val)
       | Inl r \<Rightarrow> attempt r = 6))
   \<and> (v_name v \<noteq> None \<longrightarrow>
      (case check parses (Variable_str C) variable_pe Variable_fixes v of
         Inr fin \<Rightarrow> (\<exists>val. Variable_str C fin = Inr val \<and> parses val)
       | Inl r \<Rightarrow> attempt r = 4))"
proof (intro conjI impI)
  assume n: "p_name p \<noteq> None"
  have l: "Suc (length (Param_fixes :: ('e param \<Rightarrow> exn + 'e param) list)) = 2"
    by (simp add: Param_fixes_def)
  have "case check parses (Param_str C) param_pe Param_fixes p of
         Inr fin \<Rightarrow> (\<exists>val. Param_str C fin = Inr val \<and> parses val)
       | Inl r \<Rightarrow> attempt r = Suc (length (Param_fixes :: ('e param \<Rightarrow> exn + 'e param) list))"
  proof (rule check_without_raising_strategies [where P = "\<lambda>s. p_name s \<noteq> None"])
    show "\<exists>t. g s = Inr t \<and> p_name t \<noteq> None"
      if "g \<in> set Param_fixes" "p_name s \<noteq> None" for g and s :: "'e param"
      using that by (rule Param_strategies)
    show "p_name p \<noteq> None" by (rule n)
  qed
  then show "case check parses (Param_str C) param_pe Param_fixes p of
         Inr fin \<Rightarrow> (\<exists>val. Param_str C fin = Inr val \<and> parses val)
       | Inl r \<Rightarrow> attempt r = 2"
    unfolding l .
next
  have l: "Suc (length Template_fixes) = 2"
    by (simp add: Template_fixes_def)
  have "case check parses Template_str template_pe Template_fixes u of
         Inr fin \<Rightarrow> (\<exists>val. Template_str fin = Inr val \<and> parses val)
       | Inl r \<Rightarrow> attempt r = Suc (length Template_fixes)"
  proof (rule check_without_raising_strategies [where P = "\<lambda>s. True"])
    show "\<exists>t. g s = Inr t \<and> True" if "g \<in> set Template_fixes" for g s
      using Template_strategies [OF that] by simp
    show True ..
  qed
  then show "case check parses Template_str template_pe Template_fixes u of
         Inr fin \<Rightarrow> (\<exists>val. Template_str fin = Inr val \<and> parses val)
       | Inl r \<Rightarrow> attempt r = 2"
    unfolding l .
next
  assume n: "f_name f \<noteq> None"
  have l: "Suc (length (Function_fixes C)) = 6"
    by (simp add: Function_fixes_def)
  have "case check parses (Function_str C) func_pe (Function_fixes C) f of
         Inr fin \<Rightarrow> (\<exists>val. Function_str C fin = Inr val \<and> parses val)
       | Inl r \<Rightarrow> attempt r = Suc (length (Function_fixes C))"
  proof (rule check_without_raising_strategies [where P = "\<lambda>s. f_name s \<noteq> None"])
    show "\<exists>t. g s = Inr t \<and> f_name t \<noteq> None"
      if "g \<in> set (Function_fixes C)" "f_name s \<noteq> None" for g and s :: "'e func"
      using that by (rule Function_strategies)
    show "f_name f \<noteq> None" by (rule n)
  qed
  then show "case check parses (Function_str C) func_pe (Function_fixes C) f of
         Inr fin \<Rightarrow> (\<exists>val. Function_str C fin = Inr val \<and> parses val)
       | Inl r \<Rightarrow> attempt r = 6"
    unfolding l .
next
  assume n: "v_name v \<noteq> None"
  have l: "Suc (length (Variable_fixes :: ('e variable \<Rightarrow> exn + 'e variable) list)) = 4"
    by (simp add: Variable_fixes_def)
  have "case check parses (Variable_str C) variable_pe Variable_fixes v of
         Inr fin \<Rightarrow> (\<exists>val. Variable_str C fin = Inr val \<and> parses val)
       | Inl r \<Rightarrow> attempt r = Suc (length (Variable_fixes :: ('e variable \<Rightarrow> exn + 'e variable) list))"
  proof (rule check_without_raising_strategies [where P = "\<lambda>s. v_name s \<noteq> None"])
    show "\<exists>t. g s = Inr t \<and> v_name t \<noteq> None"
      if "g \<in> set Variable_fixes" "v_name s \<noteq> None" for g and s :: "'e variable"
      using that by (rule Variable_strategies)
    show "v_name v \<noteq> None" by (rule n)
  qed
  then show "case check parses (Variable_str C) variable_pe Variable_fixes v of
         Inr fin \<Rightarrow> (\<exists>val. Variable_str C fin = Inr val \<and> parses val)
       | Inl r \<Rightarrow> attempt r = 4"
    unfolding l .
qed

text \<open>
  What the handler prints at the first number without a strategy when rendering itself
  raised: the failure with \<^verbatim>\<open>None\<close> as rendering if the qualified name is read without the
  "doesn't know its qualname" line, and nothing of the failure otherwise, because that
  line renders the object again.
\<close>

lemma check_rendering_raised:
  assumes "check parses str view fxs self = Inl f"
      and "fix_lookup fxs (attempt f) = None"
      and "strategies_applied (take (attempt f - 1) fxs) self = Inr s"
      and "str s = Inl e"
  shows "f = \<lparr>attempt = Suc (length fxs), raised = e,
              surfaced = (if qualname_diagnostic (view s) then None
                          else Some (qualname (view s), None))\<rparr>"
proof -
  from check_Inl [OF assms(1)] assms(2,3) obtain ev
    where a: "1 \<le> attempt f" "attempt f \<le> Suc (length fxs)"
      and r: "attempt_render parses str s = Some ev"
      and f: "f = report str view (attempt f) (fst ev) (snd ev) s"
    by auto
  from a assms(2) have n: "attempt f = Suc (length fxs)"
    by (auto simp: fix_lookup_def split: if_splits)
  from r assms(4) have "ev = (e, None)" by (auto simp: attempt_render_def)
  with f n have "f = report str view (Suc (length fxs)) e None s" by simp
  then show ?thesis using assms(4) by (simp add: report_def Let_def)
qed

text \<open>
  The ways in which the loop ends, for any class and any parser.
\<close>

lemma check_ways:
  "(case check parses str view fxs self of
      Inr fin \<Rightarrow> (\<exists>val. str fin = Inr val \<and> parses val)
    | Inl f \<Rightarrow>
        1 \<le> attempt f \<and> attempt f \<le> Suc (length fxs)
        \<and> (\<forall>j. 1 \<le> j \<and> j < attempt f \<longrightarrow> fix_lookup fxs j \<noteq> None)
        \<and> (\<exists>s. strategies_applied (take (attempt f - 1) fxs) self = Inr s
              \<and> (\<forall>val. str s = Inr val \<longrightarrow> \<not> parses val)
              \<and> (case fix_lookup fxs (attempt f) of
                   Some g \<Rightarrow> g s = Inl (raised f) \<and> surfaced f = None
                 | None \<Rightarrow>
                     attempt f = Suc (length fxs)
                     \<and> (case str s of
                          Inr val \<Rightarrow>
                            raised f = SyntaxError
                            \<and> surfaced f = Some (qualname (view s), Some val)
                        | Inl e \<Rightarrow> raised f = e))))"
proof (cases "check parses str view fxs self")
  case (Inr fin)
  then have "attempt_render parses str fin = None"
    unfolding check_def by (rule check_from_Inr)
  then have "\<exists>val. str fin = Inr val \<and> parses val"
    by (auto simp: attempt_render_def split: sum.splits if_splits)
  with Inr show ?thesis by simp
next
  case (Inl f)
  from check_Inl [OF Inl] obtain s ev where a: "1 \<le> attempt f" "attempt f \<le> Suc (length fxs)"
    and s: "strategies_applied (take (attempt f - 1) fxs) self = Inr s"
    and r: "attempt_render parses str s = Some ev"
    and c: "(case fix_lookup fxs (attempt f) of
             Some g \<Rightarrow> g s = Inl (raised f) \<and> surfaced f = None
           | None \<Rightarrow> f = report str view (attempt f) (fst ev) (snd ev) s)"
    by auto
  have before: "\<forall>j. 1 \<le> j \<and> j < attempt f \<longrightarrow> fix_lookup fxs j \<noteq> None"
    using a by (simp add: fix_lookup_def)
  have rejected: "\<forall>val. str s = Inr val \<longrightarrow> \<not> parses val"
    using r by (auto simp: attempt_render_def split: sum.splits if_splits)
  have last: "(case fix_lookup fxs (attempt f) of
                   Some g \<Rightarrow> g s = Inl (raised f) \<and> surfaced f = None
                 | None \<Rightarrow>
                     attempt f = Suc (length fxs)
                     \<and> (case str s of
                          Inr val \<Rightarrow>
                            raised f = SyntaxError
                            \<and> surfaced f = Some (qualname (view s), Some val)
                        | Inl e \<Rightarrow> raised f = e))"
  proof (cases "fix_lookup fxs (attempt f)")
    case (Some g)
    with c show ?thesis by simp
  next
    case None
    with a have n: "attempt f = Suc (length fxs)"
      by (auto simp: fix_lookup_def split: if_splits)
    from None c have f: "f = report str view (attempt f) (fst ev) (snd ev) s" by simp
    show ?thesis
    proof (cases "str s")
      case (Inl e)
      with r have ev: "ev = (e, None)" by (auto simp: attempt_render_def)
      have "raised (report str view (attempt f) e None s) = e"
        using Inl by (simp add: report_def Let_def)
      with arg_cong [OF f, of raised] ev have "raised f = e" by simp
      with None n Inl show ?thesis by simp
    next
      case (Inr val)
      with r have ev: "ev = (SyntaxError, Some val)"
        by (auto simp: attempt_render_def split: if_splits)
      have "raised (report str view (attempt f) SyntaxError (Some val) s) = SyntaxError"
           "surfaced (report str view (attempt f) SyntaxError (Some val) s)
              = Some (qualname (view s), Some val)"
        using Inr by (simp_all add: report_def Let_def)
      with arg_cong [OF f, of raised] arg_cong [OF f, of surfaced] ev
      have "raised f = SyntaxError \<and> surfaced f = Some (qualname (view s), Some val)" by simp
      with None n Inr show ?thesis by simp
    qed
  qed
  show ?thesis using Inl a before s rejected last by auto
qed

text \<open>
  C1, as the code has it.  The loop of \<^verbatim>\<open>check\<close> ends, for every class (a rendering
  function, the view of the qualified name and the list of strategies), every parser and
  every object, and it ends in one of three ways.  Either it returns the object in a state
  whose rendering the parser accepts.  Or it fails at some attempt, numbered from 1, at most
  one more than the number of strategies; every smaller number has a strategy, these have
  been applied in order without raising, and in the state reached the rendering raises or
  is rejected by the parser.  Then, if the attempt has a strategy, it is this strategy that
  raised: its exception leaves the loop and nothing of the failure is printed.  If the
  attempt has no strategy, it is the first number without one; when the rendering was
  rejected by the parser, the failure is printed with the qualified name, followed by the
  rendering, and the parser's error is raised again; when rendering itself raised, its
  exception is the one that leaves the loop.

  A strategy of Param, Function or Variable raises exactly when the name is \<^verbatim>\<open>None\<close> (the
  first strategy of a Function and the strategy of a Template never raise).  So a Param,
  a Function or a Variable whose name is a string, and every Template, leaves the loop in
  one of two ways: with a rendering the parser accepts, or at the first number without a
  strategy (2, 6, 4 and 2).
\<close>

theorem check_outcome:
  fixes p :: "'e param" and f :: "'e func" and v :: "'e variable"
  shows
  "(case check parses str view fxs self of
      Inr fin \<Rightarrow> (\<exists>val. str fin = Inr val \<and> parses val)
    | Inl r \<Rightarrow>
        1 \<le> attempt r \<and> attempt r \<le> Suc (length fxs)
        \<and> (\<forall>j. 1 \<le> j \<and> j < attempt r \<longrightarrow> fix_lookup fxs j \<noteq> None)
        \<and> (\<exists>s. strategies_applied (take (attempt r - 1) fxs) self = Inr s
              \<and> (\<forall>val. str s = Inr val \<longrightarrow> \<not> parses val)
              \<and> (case fix_lookup fxs (attempt r) of
                   Some g \<Rightarrow> g s = Inl (raised r) \<and> surfaced r = None
                 | None \<Rightarrow>
                     attempt r = Suc (length fxs)
                     \<and> (case str s of
                          Inr val \<Rightarrow>
                            raised r = SyntaxError
                            \<and> surfaced r = Some (qualname (view s), Some val)
                        | Inl e \<Rightarrow> raised r = e))))
   \<and> (Param_fix1 p = Inl x \<longleftrightarrow> p_name p = None \<and> x = TypeError)
   \<and> Function_fix1 C f \<noteq> Inl x
   \<and> (Function_fix2 f = Inl x \<longleftrightarrow> f_name f = None \<and> x = AttributeError)
   \<and> (Function_fix3 f = Inl x \<longleftrightarrow> f_name f = None \<and> x = AttributeError)
   \<and> (Function_fix4 f = Inl x \<longleftrightarrow> f_name f = None \<and> x = TypeError)
   \<and> (Function_fix5 f = Inl x \<longleftrightarrow> f_name f = None \<and> x = TypeError)
   \<and> (Variable_fix1 v = Inl x \<longleftrightarrow> v_name v = None \<and> x = TypeError)
   \<and> (Variable_fix2 v = Inl x \<longleftrightarrow> v_name v = None \<and> x = TypeError)
   \<and> (Variable_fix3 v = Inl x \<longleftrightarrow> v_name v = None \<and> x = TypeError)
   \<and> Template_fix1 u \<noteq> Inl x
   \<and> (p_name p \<noteq> None \<longrightarrow>
        (case check parses (Param_str C) param_pe Param_fixes p of
           Inr fin \<Rightarrow> (\<exists>val. Param_str C fin = Inr val \<and> parses val)
         | Inl r \<Rightarrow> attempt r = 2))
   \<and> (case check parses Template_str template_pe Template_fixes u of
         Inr fin \<Rightarrow> (\<exists>val. Template_str fin = Inr val \<and> parses val)
       | Inl r \<Rightarrow> attempt r = 2)
   \<and> (f_name f \<noteq> None \<longrightarrow>
        (case check parses (Function_str C) func_pe (Function_fixes C) f of
           Inr fin \<Rightarrow> (\<exists>val. Function_str C fin = Inr val \<and> parses val)
         | Inl r \<Rightarrow> attempt r = 6))
   \<and> (v_name v \<noteq> None \<longrightarrow>
        (case check parses (Variable_str C) variable_pe Variable_fixes v of
           Inr fin \<Rightarrow> (\<exists>val. Variable_str C fin = Inr val \<and> parses val)
         | Inl r \<Rightarrow> attempt r = 4))"
proof -
  note a = check_ways [where parses = parses and str = str and view = view and fxs = fxs
      and self = self]
  note b = strategies_raise_on_None [where p = p and e = x and C = C and f = f and v = v and u = u]
  note c = named_objects_two_ways [where p = p and parses = parses and C = C and u = u
      and f = f and v = v]
  from a b c show ?thesis by blast
qed

theorem check_outcome_witness:
  "check names_identifier Template_str template_pe Template_fixes digit_template
     = Inr (digit_template\<lparr>tp_name := ''_1T''\<rparr>)
   \<and> names_identifier (''_1T = TypeVar('' @ squote @ ''_1T'' @ squote @ '')'')
   \<and> check names_identifier Template_str template_pe no_fixes digit_template
     = Inl \<lparr>attempt = 1, raised = SyntaxError,
            surfaced = Some (''1T'', Some (''1T = TypeVar('' @ squote @ ''1T'' @ squote @ '')''))\<rparr>
   \<and> \<not> names_identifier (''1T = TypeVar('' @ squote @ ''1T'' @ squote @ '')'')
   \<and> check names_identifier (Param_str plain_ctx) param_pe Param_fixes nameless_param
     = Inl \<lparr>attempt = 1, raised = TypeError, surfaced = None\<rparr>
   \<and> Param_fix1 nameless_param = Inl TypeError
   \<and> p_name int_param \<noteq> None
   \<and> check names_identifier (Param_str plain_ctx) param_pe Param_fixes int_param = Inr int_param
   \<and> f_name (undocumented_function ''draw'') \<noteq> None
   \<and> check names_identifier (Function_str plain_ctx) func_pe (Function_fixes plain_ctx)
        (undocumented_function ''draw'')
       = Inl \<lparr>attempt = 6, raised = AttributeError, surfaced = None\<rparr>
   \<and> v_name count_variable \<noteq> None
   \<and> check names_identifier (Variable_str plain_ctx) variable_pe Variable_fixes count_variable
       = Inr count_variable"
proof -
  have a: "check names_identifier Template_str template_pe Template_fixes digit_template
             = Inr (digit_template\<lparr>tp_name := ''_1T''\<rparr>)"
    by code_simp
  have b: "check names_identifier Template_str template_pe no_fixes digit_template
     = Inl \<lparr>attempt = 1, raised = SyntaxError,
            surfaced = Some (''1T'', Some (''1T = TypeVar('' @ squote @ ''1T'' @ squote @ '')''))\<rparr>"
    by code_simp
  have c: "names_identifier (''_1T = TypeVar('' @ squote @ ''_1T'' @ squote @ '')'')"
          "\<not> names_identifier (''1T = TypeVar('' @ squote @ ''1T'' @ squote @ '')'')"
    by code_simp+
  have d: "check names_identifier (Param_str plain_ctx) param_pe Param_fixes nameless_param
     = Inl \<lparr>attempt = 1, raised = TypeError, surfaced = None\<rparr>"
    by code_simp
  have g: "check names_identifier (Param_str plain_ctx) param_pe Param_fixes int_param = Inr int_param"
    by code_simp
  have h: "check names_identifier (Function_str plain_ctx) func_pe (Function_fixes plain_ctx)
        (undocumented_function ''draw'')
       = Inl \<lparr>attempt = 6, raised = AttributeError, surfaced = None\<rparr>"
    by code_simp
  have i: "check names_identifier (Variable_str plain_ctx) variable_pe Variable_fixes count_variable
       = Inr count_variable"
    by code_simp
  have n: "p_name int_param \<noteq> None" "f_name (undocumented_function ''draw'') \<noteq> None"
          "v_name count_variable \<noteq> None"
    by (simp_all add: int_param_def undocumented_function_def count_variable_def)
  note t1 = check_outcome [where parses = names_identifier and str = Template_str
        and view = template_pe and fxs = Template_fixes and self = digit_template
        and p = int_param and C = plain_ctx and f = "undocumented_function ''draw''"
        and v = count_variable and u = digit_template and x = TypeError]
  note t2 = check_outcome [where parses = names_identifier and str = "Param_str plain_ctx"
        and view = param_pe and fxs = Param_fixes and self = nameless_param
        and p = nameless_param and C = plain_ctx and f = "undocumented_function ''draw''"
        and v = count_variable and u = digit_template and x = TypeError]
  from t2 have e': "Param_fix1 nameless_param = Inl TypeError"
    by (simp add: nameless_param_def)
  from t1 n have two:
    "(case check names_identifier (Param_str plain_ctx) param_pe Param_fixes int_param of
        Inr fin \<Rightarrow> (\<exists>val. Param_str plain_ctx fin = Inr val \<and> names_identifier val)
      | Inl r \<Rightarrow> attempt r = 2)"
    by blast
  show ?thesis
    using a b c d e' g h i n two by simp
qed

text \<open>
  A parameter whose \<^verbatim>\<open>declname\<close> node has no text gets the name \<^verbatim>\<open>None\<close>.  Its first
  rendering raises, the class has a strategy for attempt 1, and the strategy raises in its
  turn: the loop is left at an attempt that has a strategy, with no rendering accepted and
  nothing printed, and the constructor fails with that exception.
\<close>

theorem strategy_raises_in_loop:
  "Param_init plain_ctx names_identifier nameless_param_node None = Inl TypeError
   \<and> check names_identifier (Param_str plain_ctx) param_pe Param_fixes nameless_param
       = Inl \<lparr>attempt = 1, raised = TypeError, surfaced = None\<rparr>
   \<and> fix_lookup Param_fixes 1 = Some (Param_fix1 :: pe param \<Rightarrow> exn + pe param)
   \<and> Param_fix1 nameless_param = Inl TypeError"
proof -
  have "Param_init plain_ctx names_identifier nameless_param_node None = Inl TypeError"
    by code_simp
  moreover have "check names_identifier (Param_str plain_ctx) param_pe Param_fixes nameless_param
       = Inl \<lparr>attempt = 1, raised = TypeError, surfaced = None\<rparr>"
    by code_simp
  ultimately show ?thesis
    by (simp add: fix_lookup_def Param_fixes_def Param_fix1_def nameless_param_def)
qed

text \<open>
  A Function whose \<^verbatim>\<open>name\<close> node has no text renders with the name \<^verbatim>\<open>None\<close>; its first
  strategy leaves the name as it is and the second raises, so the loop is left at attempt
  2.  A Variable of that kind is left by its first strategy.
\<close>

lemma nameless_members:
  "Function_init plain_ctx names_identifier nameless_function_node None = Inl AttributeError
   \<and> check names_identifier (Function_str plain_ctx) func_pe (Function_fixes plain_ctx)
        \<lparr>container = None, brief = Some [], f_name = None,
         f_returnt = Type (Some (Element ''type'' [] (Some ''void'') [] None)) [] [PStr ''None''] None,
         f_params = [], f_templ = [], f_overloaded = False\<rparr>
       = Inl \<lparr>attempt = 2, raised = AttributeError, surfaced = None\<rparr>
   \<and> Variable_init plain_ctx names_identifier nameless_variable_node None = Inl TypeError
   \<and> check names_identifier (Variable_str plain_ctx) variable_pe Variable_fixes
        \<lparr>container = None, brief = Some [], v_name = None,
         v_type = PType (Type (Some (Element ''type'' [] (Some ''int'') [] None)) [] [PStr ''int''] None),
         v_value = PStr ''...'', v_overloaded = False\<rparr>
       = Inl \<lparr>attempt = 1, raised = TypeError, surfaced = None\<rparr>"
  by code_simp

text \<open>
  A Function without brief description never renders.  All five strategies are applied and
  the loop fails at attempt 6.  The failure is printed when the name the strategies have left
  starts with \<^verbatim>\<open>ogdf\<close>, and is not when it does not.
\<close>

lemma undocumented_members:
  "Function_init plain_ctx names_identifier (undocumented_function_node ''draw'') None
     = Inl AttributeError
   \<and> check names_identifier (Function_str plain_ctx) func_pe (Function_fixes plain_ctx)
        (undocumented_function ''draw'')
       = Inl \<lparr>attempt = 6, raised = AttributeError, surfaced = None\<rparr>
   \<and> check names_identifier (Function_str plain_ctx) func_pe (Function_fixes plain_ctx)
        (undocumented_function ''ogdf_init'')
       = Inl \<lparr>attempt = 6, raised = AttributeError, surfaced = Some (''ogdfinit'', None)\<rparr>"
  by code_simp

section \<open>Equality and hashing\<close>

text \<open>
  C9.  Two objects whose renderings exist compare equal exactly when the renderings are the
  same string, and objects that compare equal have the same hash.  The test on the type of
  the single parameter in the first Function strategy is this comparison with the string
  \<^verbatim>\<open>int\<close>, and adding to a set of Templates one that equals a member leaves the set as it is.
\<close>

theorem equality_by_rendering:
  "(str_of C a = Inr x \<and> str_of C b = Inr y \<longrightarrow> py_eq C a b = Inr (x = y))
   \<and> (py_eq C a b = Inr True \<longrightarrow> py_hash h C a = py_hash h C b)
   \<and> (first_param_is C f ''int'' \<longleftrightarrow>
        (\<exists>p. f_params f = [p] \<and> py_eq C (OType (p_type p)) (OStr ''int'') = Inr True))
   \<and> (py_eq C (OTemplate u) (OTemplate v) = Inr True \<longrightarrow> set_add C v (set_add C u S) = set_add C u S)"
  apply (intro conjI impI)
     apply (simp add: py_eq_def)
    apply (auto simp: py_eq_def py_hash_def split: sum.splits)[1]
   apply (auto simp: first_param_is_def py_eq_def split: list.splits)[1]
  apply (auto simp: set_add_def py_eq_def Template_str_def list_ex_iff split: if_splits)
  done

theorem equality_by_rendering_witness:
  "str_of plain_ctx (OType (Type None [] [PStr ''int''] None)) = Inr ''int''
   \<and> str_of plain_ctx (OStr ''int'') = Inr ''int''
   \<and> py_eq plain_ctx (OType (Type None [] [PStr ''int''] None)) (OStr ''int'') = Inr True
   \<and> py_hash (\<lambda>s. int (length s)) plain_ctx (OType (Type None [] [PStr ''int''] None))
       = py_hash (\<lambda>s. int (length s)) plain_ctx (OStr ''int'')
   \<and> py_eq plain_ctx (OTemplate digit_template) (OTemplate (digit_template\<lparr>brief := Some ''T''\<rparr>)) = Inr True
   \<and> set_add plain_ctx (digit_template\<lparr>brief := Some ''T''\<rparr>) (set_add plain_ctx digit_template [])
       = [digit_template]"
  using equality_by_rendering [where C = plain_ctx and a = "OType (Type None [] [PStr ''int''] None)"
      and b = "OStr ''int''" and x = "''int''" and y = "''int''" and h = "\<lambda>s. int (length s)" and u = digit_template
      and v = "digit_template\<lparr>brief := Some ''T''\<rparr>" and S = "[]"]
  by (simp add: py_eq_def Template_str_def digit_template_def set_add_def target_truthy_def)
section \<open>The index operator\<close>

lemma check_two_steps:
  assumes "attempt_render parses str self = Some ev"
      and "fix_lookup fxs 1 = Some g"
      and "g self = Inr t"
      and "attempt_render parses str t = None"
  shows "check parses str view fxs self = Inr t"
  using assms
  by (cases ev)
     (simp add: check_def check_from.simps [of parses str view fxs "Suc 0" self]
        check_from.simps [of parses str view fxs "Suc (Suc 0)" t])

text \<open>
  C3, as the code has it.  A Function named \<^verbatim>\<open>operator[]\<close> with one parameter named by the
  placeholder \<^verbatim>\<open>_\<close>, of a type rendering as \<^verbatim>\<open>int\<close>, no default, and a return Type with no
  parts, override or target, leaves the repair loop named \<^verbatim>\<open>__getitem__\<close> (for a parser that
  rejects the raw rendering and accepts the repaired one) and renders as
  \<^verbatim>\<open>def __getitem__(self, _ : int) -> None:\<close> followed by the brief text, if any, as a
  docstring and by the body \<^verbatim>\<open>...\<close>: the return annotation of a Function is \<^verbatim>\<open>None\<close> when
  the return Type is not true, although that Type itself renders as \<^verbatim>\<open>Any\<close>.
\<close>

theorem index_operator_rendering:
  fixes f :: "'e func"
  assumes "f_name f = Some ''operator[]''"
      and "f_params f = [p]"
      and "p_name p = Some ''_''" and "Type_bool C (p_type p)" and "Type_str C (p_type p) = ''int''"
      and "p_default p = None"
      and "f_returnt f = Type x [] [] None"
      and "brief f = Some b" and "\<not> f_overloaded f"
      and "\<not> parses (''def operator[](self, _ : int) -> None:''
              @ (if b \<noteq> [] then nl @ tab @ dquote @ dquote @ dquote @ b @ dquote @ dquote @ dquote else [])
              @ nl @ tab @ ''...'')"
      and "parses (''def __getitem__(self, _ : int) -> None:''
              @ (if b \<noteq> [] then nl @ tab @ dquote @ dquote @ dquote @ b @ dquote @ dquote @ dquote else [])
              @ nl @ tab @ ''...'')"
  shows "check parses (Function_str C) func_pe (Function_fixes C) f
           = Inr (f\<lparr>f_name := Some ''__getitem__''\<rparr>)
         \<and> Function_str C (f\<lparr>f_name := Some ''__getitem__''\<rparr>)
             = Inr (''def __getitem__(self, _ : int) -> None:''
                    @ (if b \<noteq> [] then nl @ tab @ dquote @ dquote @ dquote @ b @ dquote @ dquote @ dquote else [])
                    @ nl @ tab @ ''...'')
         \<and> Type_str C (f_returnt f) = ''Any''"
proof -
  have ps: "collect (Param_str C) [p] = Inr [''_ : int'']"
    using assms by (simp add: Param_str_def)
  have rt: "\<not> Type_bool C (f_returnt f)"
    using assms by (simp add: Type_bool_def target_truthy_def)
  have raw: "Function_str C f = Inr (''def operator[](self, _ : int) -> None:''
              @ (if b \<noteq> [] then nl @ tab @ dquote @ dquote @ dquote @ b @ dquote @ dquote @ dquote else [])
              @ nl @ tab @ ''...'')"
    using assms ps rt by (simp add: Function_str_def Let_def py_format_def)
  have fx: "Function_fix1 C f = Inr (f\<lparr>f_name := Some ''__getitem__''\<rparr>)"
    using assms by (simp add: Function_fix1_def Let_def renames_def)
  have fixed: "Function_str C (f\<lparr>f_name := Some ''__getitem__''\<rparr>)
             = Inr (''def __getitem__(self, _ : int) -> None:''
                    @ (if b \<noteq> [] then nl @ tab @ dquote @ dquote @ dquote @ b @ dquote @ dquote @ dquote else [])
                    @ nl @ tab @ ''...'')"
    using assms ps rt by (simp add: Function_str_def Let_def py_format_def)
  have "check parses (Function_str C) func_pe (Function_fixes C) f
          = Inr (f\<lparr>f_name := Some ''__getitem__''\<rparr>)"
  proof (rule check_two_steps)
    show "attempt_render parses (Function_str C) f = Some (SyntaxError, Some (''def operator[](self, _ : int) -> None:''
              @ (if b \<noteq> [] then nl @ tab @ dquote @ dquote @ dquote @ b @ dquote @ dquote @ dquote else [])
              @ nl @ tab @ ''...''))"
      using raw assms(10) by (simp add: attempt_render_def)
    show "fix_lookup (Function_fixes C) 1 = Some (Function_fix1 C)"
      by (simp add: fix_lookup_def Function_fixes_def)
    show "Function_fix1 C f = Inr (f\<lparr>f_name := Some ''__getitem__''\<rparr>)" by (rule fx)
    show "attempt_render parses (Function_str C) (f\<lparr>f_name := Some ''__getitem__''\<rparr>) = None"
      using fixed assms(11) by (simp add: attempt_render_def)
  qed
  with fixed assms(7) show ?thesis by (simp add: target_truthy_def)
qed

lemma index_operator_init:
  "Function_init plain_ctx names_identifier index_operator_node None
     = Inr \<lparr>container = None, brief = Some [], f_name = Some ''__getitem__'',
            f_returnt = Type (Some (Element ''type'' [] None [] None)) [] [] None,
            f_params = [\<lparr>container = None, brief = None, p_name = Some ''_'',
                         p_type = Type (Some (Element ''type'' [] (Some ''int'') [] None)) [] [PStr ''int''] None,
                         p_default = None\<rparr>],
            f_templ = [], f_overloaded = False\<rparr>"
  by code_simp

theorem index_operator_rendering_witness:
  "check names_identifier (Function_str plain_ctx) func_pe (Function_fixes plain_ctx)
     \<lparr>container = None, brief = Some [], f_name = Some ''operator[]'',
      f_returnt = Type None [] [] None,
      f_params = [\<lparr>container = None, brief = None, p_name = Some ''_'',
                   p_type = Type None [] [PStr ''int''] None, p_default = None\<rparr>],
      f_templ = [], f_overloaded = False\<rparr>
   = Inr \<lparr>container = None, brief = Some [], f_name = Some ''__getitem__'',
      f_returnt = Type None [] [] None,
      f_params = [\<lparr>container = None, brief = None, p_name = Some ''_'',
                   p_type = Type None [] [PStr ''int''] None, p_default = None\<rparr>],
      f_templ = [], f_overloaded = False\<rparr>
   \<and> \<not> names_identifier (''def operator[](self, _ : int) -> None:'' @ nl @ tab @ ''...'')
   \<and> names_identifier (''def __getitem__(self, _ : int) -> None:'' @ nl @ tab @ ''...'')"
proof -
  have a: "\<not> names_identifier (''def operator[](self, _ : int) -> None:'' @ nl @ tab @ ''...'')"
          "names_identifier (''def __getitem__(self, _ : int) -> None:'' @ nl @ tab @ ''...'')"
    by code_simp+
  show ?thesis
    using a index_operator_rendering [where C = plain_ctx and parses = names_identifier
        and b = "[]" and x = None
        and p = "\<lparr>container = None, brief = None, p_name = Some ''_'',
                   p_type = Type None [] [PStr ''int''] None, p_default = None\<rparr>"
        and f = "\<lparr>container = None, brief = Some [], f_name = Some ''operator[]'',
                  f_returnt = Type None [] [] None,
                  f_params = [\<lparr>container = None, brief = None, p_name = Some ''_'',
                               p_type = Type None [] [PStr ''int''] None, p_default = None\<rparr>],
                  f_templ = [], f_overloaded = False\<rparr>"]
    by (simp add: Type_bool_def target_truthy_def)
qed

theorem index_operator_returns_None:
  "(case Function_init plain_ctx names_identifier index_operator_node None of
      Inl e \<Rightarrow> Inl e
    | Inr f \<Rightarrow> Function_str plain_ctx f)
   = Inr (''def __getitem__(self, _ : int) -> None:'' @ nl @ tab @ ''...'')
   \<and> (case Function_init plain_ctx names_identifier index_operator_node None of
      Inl e \<Rightarrow> Inl e
    | Inr f \<Rightarrow> Function_str plain_ctx f)
   \<noteq> Inr (''def __getitem__(self, _ : int) -> Any:'' @ nl @ tab @ ''...'')"
  by (simp add: index_operator_init Function_str_def Let_def Param_str_def py_format_def
      Type_bool_def target_truthy_def nl_def tab_def)

section \<open>Qualified names of members\<close>

lemma ParsedElement_init_container: "container (ParsedElement_init x c) = None"
  by (simp add: ParsedElement_init_def)

lemma qualname_join:
  "qualname (PE None (Holds (Some n)) (Some c)) = qualname c @ ''.'' @ n"
  by (simp add: py_format_def)

lemma draw_init:
  "Function_init plain_ctx names_identifier draw_node (Some graph_pe)
     = Inr \<lparr>container = None, brief = Some [], f_name = Some ''draw'',
            f_returnt = Type (Some (Element ''type'' [] (Some ''void'') [] None)) [] [PStr ''None''] None,
            f_params = [], f_templ = [], f_overloaded = False\<rparr>"
  by code_simp




text \<open>
  The constructor of the base class, however, leaves every object without container
  (\<open>ParsedElement_init_container\<close>): the Function \<^verbatim>\<open>draw\<close> built with the class \<^verbatim>\<open>ogdf.Graph\<close>
  as container has the qualified name \<^verbatim>\<open>draw\<close>, with the diagnostic.
\<close>

theorem member_qualname_loses_container:
  "qualname graph_pe = ''ogdf.Graph''
   \<and> (case Function_init plain_ctx names_identifier draw_node (Some graph_pe) of
        Inl e \<Rightarrow> None
      | Inr f \<Rightarrow> Some (container f, qualname (func_pe f), qualname_diagnostic (func_pe f)))
     = Some (None, ''draw'', True)"
  by (simp add: draw_init func_pe_def startswith_def) (simp add: graph_pe_def)

section \<open>Overload marks\<close>

lemma map_of_ns_append:
  "map_of (ns_append nm i ns) k =
     (if k = nm then Some ((case map_of ns nm of None \<Rightarrow> [] | Some l \<Rightarrow> l) @ [i]) else map_of ns k)"
  by (induction nm i ns rule: ns_append.induct) auto

lemma keys_ns_append: "fst ` set (ns_append nm i ns) = insert nm (fst ` set ns)"
  by (induction nm i ns rule: ns_append.induct) auto

lemma distinct_ns_append:
  "distinct (map fst ns) \<Longrightarrow> distinct (map fst (ns_append nm i ns))"
proof (induction nm i ns rule: ns_append.induct)
  case (1 n i)
  then show ?case by simp
next
  case (2 n i k v rest)
  have "fst ` set (ns_append n i rest) = insert n (fst ` set rest)" by (rule keys_ns_append)
  with 2 show ?case by auto
qed

lemma member_name_set_overloaded [simp]: "member_name (set_overloaded m) = member_name m"
  by (cases m) (simp_all add: member_name_def set_overloaded_def)

lemma is_overloaded_set_overloaded [simp]:
  "is_overloaded (set_overloaded m) = (is_overloaded m \<or> member_name m \<noteq> None)"
  by (cases m) (simp_all add: member_name_def set_overloaded_def is_overloaded_def)

lemma mark_group_length [simp]: "length (mark_group idxs xs) = length xs"
  unfolding mark_group_def by (induction idxs arbitrary: xs) simp_all

lemma mark_group_nth:
  "i < length xs \<Longrightarrow>
     member_name (mark_group idxs xs ! i) = member_name (xs ! i)
     \<and> is_overloaded (mark_group idxs xs ! i)
         = (is_overloaded (xs ! i) \<or> (i \<in> set idxs \<and> member_name (xs ! i) \<noteq> None))"
  unfolding mark_group_def
proof (induction idxs arbitrary: xs)
  case Nil
  then show ?case by simp
next
  case (Cons j idxs)
  let ?ys = "xs[j := set_overloaded (xs ! j)]"
  have len: "i < length ?ys" using Cons.prems by simp
  have step: "member_name (?ys ! i) = member_name (xs ! i)"
    "is_overloaded (?ys ! i) = (is_overloaded (xs ! i) \<or> (i = j \<and> member_name (xs ! i) \<noteq> None))"
  proof -
    show "member_name (?ys ! i) = member_name (xs ! i)"
      using Cons.prems by (cases "i = j") simp_all
    show "is_overloaded (?ys ! i) = (is_overloaded (xs ! i) \<or> (i = j \<and> member_name (xs ! i) \<noteq> None))"
      using Cons.prems by (cases "i = j") simp_all
  qed
  from Cons.IH [OF len] step show ?case by auto
qed

lemma mark_item_length [simp]: "length (mark_item item xs) = length xs"
  by (simp add: mark_item_def)

lemma fold_mark_item_length [simp]: "length (fold mark_item ns xs) = length xs"
  by (induction ns arbitrary: xs) simp_all

lemma fold_mark_item_nth:
  "i < length xs \<Longrightarrow>
     member_name (fold mark_item ns xs ! i) = member_name (xs ! i)
     \<and> is_overloaded (fold mark_item ns xs ! i)
         = (is_overloaded (xs ! i)
            \<or> (member_name (xs ! i) \<noteq> None
                \<and> (\<exists>item \<in> set ns. 1 < length (snd item) \<and> i \<in> set (snd item))))"
proof (induction ns arbitrary: xs)
  case Nil
  then show ?case by simp
next
  case (Cons item ns)
  have len: "i < length (mark_item item xs)" using Cons.prems by simp
  have step: "member_name (mark_item item xs ! i) = member_name (xs ! i)"
    "is_overloaded (mark_item item xs ! i)
       = (is_overloaded (xs ! i)
          \<or> (member_name (xs ! i) \<noteq> None \<and> 1 < length (snd item) \<and> i \<in> set (snd item)))"
    using mark_group_nth [OF Cons.prems, of "snd item"] by (auto simp: mark_item_def)
  from Cons.IH [OF len] step show ?case by auto
qed

lemma visit_members:
  "members (visit C name i st) = (members st)[i := claim_constructor name (members st ! i)]"
  by (simp add: visit_def Let_def)

lemma visit_namespace:
  "namespace (visit C name i st)
     = (case member_name (claim_constructor name (members st ! i)) of
          Some n \<Rightarrow> ns_append n i (namespace st)
        | None \<Rightarrow> namespace st)"
  by (simp add: visit_def Let_def)

lemma positions_Suc:
  "positions ms nm (Suc k) = positions ms nm k @ (if member_name (ms ! k) = Some nm then [k] else [])"
  by (simp add: positions_def)

lemma first_loop_invariant:
  fixes ms :: "'e member list" and name :: string
  defines "ms' \<equiv> map (claim_constructor name) ms"
  assumes "k \<le> length ms"
  shows "length (members (fold (visit C name) [0..<k] st0)) = length (members st0)"
    and "members st0 = ms \<Longrightarrow> i < length ms \<Longrightarrow>
           members (fold (visit C name) [0..<k] st0) ! i = (if i < k then ms' ! i else ms ! i)"
    and "members st0 = ms \<Longrightarrow> namespace st0 = [] \<Longrightarrow>
           distinct (map fst (namespace (fold (visit C name) [0..<k] st0)))
           \<and> (\<forall>nm. map_of (namespace (fold (visit C name) [0..<k] st0)) nm
                    = (if positions ms' nm k = [] then None else Some (positions ms' nm k)))"
proof -
  let ?st = "\<lambda>k. fold (visit C name) [0..<k] st0"
  have suc: "?st (Suc k) = visit C name k (?st k)" for k by simp
  show len: "length (members (?st k)) = length (members st0)" for k
  proof (induction k)
    case 0
    show ?case by simp
  next
    case (Suc k)
    then show ?case unfolding suc by (simp add: visit_members)
  qed
  have nth: "members (?st k) ! i = (if i < k then ms' ! i else ms ! i)"
    if "members st0 = ms" "i < length ms" "k \<le> length ms" for k i
    using that
  proof (induction k arbitrary: i)
    case 0
    then show ?case by simp
  next
    case (Suc k)
    have ih: "members (?st k) ! j = (if j < k then ms' ! j else ms ! j)" if "j < length ms" for j
      using Suc.IH [OF Suc.prems(1) that] Suc.prems(3) by simp
    have l: "length (members (?st k)) = length ms" using len Suc.prems by simp
    have "members (?st (Suc k)) = (members (?st k))[k := claim_constructor name (members (?st k) ! k)]"
      unfolding suc by (rule visit_members)
    moreover have "members (?st k) ! k = ms ! k" using ih [of k] Suc.prems by simp
    ultimately have "members (?st (Suc k)) ! i
        = (if i = k then claim_constructor name (ms ! k) else members (?st k) ! i)"
      using Suc.prems l by (simp add: nth_list_update del: upt_Suc)
    then show ?case
      using Suc.prems ih [of i] by (auto simp: ms'_def less_Suc_eq simp del: upt_Suc)
  qed
  then show "members st0 = ms \<Longrightarrow> i < length ms \<Longrightarrow>
           members (?st k) ! i = (if i < k then ms' ! i else ms ! i)"
    using assms by simp
  show "distinct (map fst (namespace (?st k)))
           \<and> (\<forall>nm. map_of (namespace (?st k)) nm
                    = (if positions ms' nm k = [] then None else Some (positions ms' nm k)))"
    if m0: "members st0 = ms" and n0: "namespace st0 = []"
    using \<open>k \<le> length ms\<close>
  proof (induction k)
    case 0
    then show ?case using n0 by (simp add: positions_def)
  next
    case (Suc k)
    then have ih: "distinct (map fst (namespace (?st k)))"
      "\<And>nm. map_of (namespace (?st k)) nm
                    = (if positions ms' nm k = [] then None else Some (positions ms' nm k))"
      by simp_all
    have k: "k < length ms" using Suc.prems by simp
    have cur: "members (?st k) ! k = ms ! k"
      using nth [OF m0 k, of k] k by simp
    have m1: "claim_constructor name (ms ! k) = ms' ! k" using k by (simp add: ms'_def)
    have ns: "namespace (?st (Suc k))
                = (case member_name (ms' ! k) of
                     Some n \<Rightarrow> ns_append n k (namespace (?st k))
                   | None \<Rightarrow> namespace (?st k))"
      unfolding suc visit_namespace using cur m1 by simp
    show ?case
    proof (cases "member_name (ms' ! k)")
      case None
      with ns ih show ?thesis by (simp add: positions_Suc del: upt_Suc)
    next
      case (Some n)
      with ns have ns': "namespace (?st (Suc k)) = ns_append n k (namespace (?st k))" by simp
      have "distinct (map fst (namespace (?st (Suc k))))"
        unfolding ns' using ih(1) by (rule distinct_ns_append)
      moreover have "map_of (namespace (?st (Suc k))) nm
                    = (if positions ms' nm (Suc k) = [] then None else Some (positions ms' nm (Suc k)))" for nm
        unfolding ns' using Some ih(2) [of nm] ih(2) [of n]
        by (auto simp: map_of_ns_append positions_Suc)
      ultimately show ?thesis by blast
    qed
  qed
qed

lemma positions_pair:
  assumes "i < k" and "member_name (ms ! i) = Some nm"
  shows "1 < length (positions ms nm k) \<longleftrightarrow> (\<exists>j < k. j \<noteq> i \<and> member_name (ms ! j) = Some nm)"
proof -
  have d: "distinct (positions ms nm k)" by (simp add: positions_def)
  have s: "set (positions ms nm k) = {j. j < k \<and> member_name (ms ! j) = Some nm}"
    by (auto simp: positions_def)
  have i: "i \<in> set (positions ms nm k)" using assms s by simp
  have c: "length (positions ms nm k) = card (set (positions ms nm k))"
    using d by (simp add: distinct_card)
  show ?thesis
  proof
    assume "1 < length (positions ms nm k)"
    then have "1 < card (set (positions ms nm k))" using c by simp
    then have "set (positions ms nm k) \<noteq> {i}" by auto
    with i obtain j where "j \<in> set (positions ms nm k)" "j \<noteq> i" by auto
    with s show "\<exists>j < k. j \<noteq> i \<and> member_name (ms ! j) = Some nm" by auto
  next
    assume "\<exists>j < k. j \<noteq> i \<and> member_name (ms ! j) = Some nm"
    then obtain j where j: "j \<in> set (positions ms nm k)" "j \<noteq> i" using s by auto
    have "{i, j} \<subseteq> set (positions ms nm k)" using i j by simp
    then have "card {i, j} \<le> card (set (positions ms nm k))"
      by (intro card_mono) simp_all
    with j(2) c show "1 < length (positions ms nm k)" by simp
  qed
qed

text \<open>
  C6.  After the scan that ends the construction of a Class, over members none of which
  is marked beforehand (a Function is built with \<^verbatim>\<open>overloaded = False\<close>), a member is marked
  \<^verbatim>\<open>overloaded\<close> exactly when another member of the list has the same name; names are those
  the members have after their own repair loop, with constructors renamed \<^verbatim>\<open>__init__\<close> by
  the scan.  Section headers and nested Type references have no \<^verbatim>\<open>name\<close> attribute and
  take no part; a name that is \<^verbatim>\<open>None\<close> is a key of the multimap like any string.
\<close>

theorem overloaded_iff_name_shared:
  fixes ms :: "'e member list"
  assumes "\<forall>m \<in> set ms. \<not> is_overloaded m"
  shows "length (members (Class_scan C name generic ms)) = length ms
         \<and> (\<forall>i < length ms.
              member_name (members (Class_scan C name generic ms) ! i)
                = member_name (claim_constructor name (ms ! i))
              \<and> (is_overloaded (members (Class_scan C name generic ms) ! i)
                   \<longleftrightarrow> (\<exists>j < length ms. j \<noteq> i
                          \<and> member_name (members (Class_scan C name generic ms) ! j) \<noteq> None
                          \<and> member_name (members (Class_scan C name generic ms) ! j)
                              = member_name (members (Class_scan C name generic ms) ! i))))"
proof -
  define st0 :: "'e scope" where
    "st0 = \<lparr>members = ms, namespace = [], templates = set_update C [] generic, subtypes = []\<rparr>"
  define st where "st = fold (visit C name) [0..<length ms] st0"
  define ms' where "ms' = map (claim_constructor name) ms"
  define res where "res = fold mark_item (namespace st) (members st)"
  have scan: "members (Class_scan C name generic ms) = res"
    by (simp add: Class_scan_def Let_def res_def st_def st0_def)
  have len: "length (members st) = length ms"
    using first_loop_invariant(1) [of "length ms" ms C name st0] by (simp add: st_def st0_def)
  have mem: "members st ! i = ms' ! i" if "i < length ms" for i
    using first_loop_invariant(2) [of "length ms" ms st0 i C name] that
    by (simp add: st_def st0_def ms'_def)
  have ns: "distinct (map fst (namespace st))"
    "\<And>nm. map_of (namespace st) nm
        = (if positions ms' nm (length ms) = [] then None else Some (positions ms' nm (length ms)))"
    using first_loop_invariant(3) [of "length ms" ms st0 C name]
    by (simp_all add: st_def st0_def ms'_def)
  have items: "item \<in> set (namespace st) \<longleftrightarrow>
        snd item = positions ms' (fst item) (length ms) \<and> snd item \<noteq> []" for item
  proof -
    have "item \<in> set (namespace st) \<longleftrightarrow> map_of (namespace st) (fst item) = Some (snd item)"
      using ns(1) by (cases item) auto
    then show ?thesis using ns(2) [of "fst item"] by auto
  qed
  have fresh: "\<not> is_overloaded (ms' ! i)" if "i < length ms" for i
  proof -
    have "\<not> is_overloaded (ms ! i)" using assms that by simp
    then show ?thesis using that
      by (cases "ms ! i") (simp_all add: ms'_def claim_constructor_def is_overloaded_def)
  qed
  have res_len: "length res = length ms" by (simp add: res_def len)
  have res_nth: "member_name (res ! i) = member_name (ms' ! i)
      \<and> is_overloaded (res ! i)
          = (member_name (ms' ! i) \<noteq> None
                \<and> (\<exists>item \<in> set (namespace st). 1 < length (snd item) \<and> i \<in> set (snd item)))"
    if "i < length ms" for i
    using fold_mark_item_nth [of i "members st" "namespace st"] that len mem [OF that] fresh [OF that]
    by (simp add: res_def)
  have marked: "is_overloaded (res ! i) \<longleftrightarrow>
      (\<exists>j < length ms. j \<noteq> i \<and> member_name (ms' ! j) \<noteq> None \<and> member_name (ms' ! j) = member_name (ms' ! i))"
    if i: "i < length ms" for i
  proof (cases "member_name (ms' ! i)")
    case None
    with res_nth [OF i] show ?thesis by auto
  next
    case (Some nm)
    have "(\<exists>item \<in> set (namespace st). 1 < length (snd item) \<and> i \<in> set (snd item))
          \<longleftrightarrow> 1 < length (positions ms' nm (length ms))"
    proof
      assume "\<exists>item \<in> set (namespace st). 1 < length (snd item) \<and> i \<in> set (snd item)"
      then obtain item where it: "item \<in> set (namespace st)" "1 < length (snd item)" "i \<in> set (snd item)"
        by blast
      from it(1) have p: "snd item = positions ms' (fst item) (length ms)" using items by simp
      with it(3) have "member_name (ms' ! i) = Some (fst item)" by (simp add: positions_def)
      with Some have "fst item = nm" by simp
      with p it(2) show "1 < length (positions ms' nm (length ms))" by simp
    next
      assume l: "1 < length (positions ms' nm (length ms))"
      then have "(nm, positions ms' nm (length ms)) \<in> set (namespace st)"
        using items [of "(nm, positions ms' nm (length ms))"] by auto
      moreover have "i \<in> set (positions ms' nm (length ms))"
        using i Some by (simp add: positions_def)
      ultimately show "\<exists>item \<in> set (namespace st). 1 < length (snd item) \<and> i \<in> set (snd item)"
        using l by force
    qed
    also have "\<dots> \<longleftrightarrow> (\<exists>j < length ms. j \<noteq> i \<and> member_name (ms' ! j) = Some nm)"
      using i Some by (rule positions_pair)
    finally show ?thesis using res_nth [OF i] Some by auto
  qed
  have names: "member_name (res ! i) = member_name (ms' ! i)" if "i < length ms" for i
    using res_nth [OF that] by simp
  have "is_overloaded (res ! i)
          \<longleftrightarrow> (\<exists>j < length ms. j \<noteq> i \<and> member_name (res ! j) \<noteq> None
                 \<and> member_name (res ! j) = member_name (res ! i))"
    if i: "i < length ms" for i
  proof -
    have "(\<exists>j < length ms. j \<noteq> i \<and> member_name (res ! j) \<noteq> None
                 \<and> member_name (res ! j) = member_name (res ! i))
          \<longleftrightarrow> (\<exists>j < length ms. j \<noteq> i \<and> member_name (ms' ! j) \<noteq> None
                 \<and> member_name (ms' ! j) = member_name (ms' ! i))"
      using names i by (simp cong: conj_cong)
    then show ?thesis using marked [OF i] by simp
  qed
  moreover have "member_name (res ! i) = member_name (claim_constructor name (ms ! i))"
    if "i < length ms" for i
    using names [OF that] that by (simp add: ms'_def)
  ultimately show ?thesis
    unfolding scan using res_len by blast
qed

theorem overloaded_iff_name_shared_witness:
  "\<not> list_ex is_overloaded graph_scope_members
   \<and> map (\<lambda>m. (member_name m, is_overloaded m))
         (members (Class_scan plain_ctx ''Graph'' [] graph_scope_members))
       = [(Some (Some ''__init__''), True), (None, False), (Some (Some ''draw''), False),
          (Some (Some ''__init__''), True)]"
proof -
  have a: "\<forall>m \<in> set graph_scope_members. \<not> is_overloaded m"
    by (simp add: graph_scope_members_def is_overloaded_def)
  have b: "map (\<lambda>m. (member_name m, is_overloaded m))
         (members (Class_scan plain_ctx ''Graph'' [] graph_scope_members))
       = [(Some (Some ''__init__''), True), (None, False), (Some (Some ''draw''), False),
          (Some (Some ''__init__''), True)]"
    by code_simp
  show ?thesis
    using overloaded_iff_name_shared [OF a, of plain_ctx "''Graph''" "[]"] a b
    by (simp add: list_ex_iff)
qed

section \<open>What a match consumes\<close>

lemma consumes_refl: "consumes A q q"
  by (simp add: consumes_def)

lemma consumes_trans:
  assumes "consumes A q q'" and "consumes B q' q''"
  shows "consumes (A \<union> B) q q''"
proof -
  from assms(1) obtain m where m: "snd q = m @ snd q'"
    "fst q' = (if m = [] then fst q else Some (last m))" "set m \<subseteq> A"
    by (auto simp: consumes_def)
  from assms(2) obtain n where n: "snd q' = n @ snd q''"
    "fst q'' = (if n = [] then fst q' else Some (last n))" "set n \<subseteq> B"
    by (auto simp: consumes_def)
  have "snd q = (m @ n) @ snd q''" using m(1) n(1) by simp
  moreover have "fst q'' = (if m @ n = [] then fst q else Some (last (m @ n)))"
    using m(2) n(2) by simp
  moreover have "set (m @ n) \<subseteq> A \<union> B" using m(3) n(3) by auto
  ultimately show ?thesis unfolding consumes_def by blast
qed

lemma consumes_mono: "consumes A q q' \<Longrightarrow> A \<subseteq> B \<Longrightarrow> consumes B q q'"
  unfolding consumes_def by blast

lemma consumes_length: "consumes A q q' \<Longrightarrow> length (snd q') \<le> length (snd q)"
  by (auto simp: consumes_def)

lemma star_ends_consumes:
  "(\<And>q q'. q' \<in> set (step q) \<Longrightarrow> consumes A q q') \<Longrightarrow>
   q' \<in> set (star_ends step q) \<Longrightarrow> consumes A q q'"
proof (induction step q arbitrary: q' rule: star_ends.induct)
  case (1 step q)
  from "1.prems"(2) have "q' = q \<or> (\<exists>q1 \<in> set (step q). length (snd q1) < length (snd q)
      \<and> q' \<in> set (star_ends step q1))"
    by (subst (asm) star_ends.simps) (auto split: if_splits)
  then show ?case
  proof
    assume "q' = q"
    then show ?thesis by (simp add: consumes_refl)
  next
    assume "\<exists>q1 \<in> set (step q). length (snd q1) < length (snd q) \<and> q' \<in> set (star_ends step q1)"
    then obtain q1 where q1: "q1 \<in> set (step q)" "length (snd q1) < length (snd q)"
      "q' \<in> set (star_ends step q1)" by blast
    have "consumes A q1 q'" using "1.IH" [OF q1(1) q1(2) "1.prems"(1) q1(3)] .
    moreover have "consumes A q q1" using "1.prems"(1) q1(1) .
    ultimately have "consumes (A \<union> A) q q'" by (rule consumes_trans [rotated])
    then show ?thesis by simp
  qed
qed

lemma ends_consumes: "q' \<in> set (ends r q) \<Longrightarrow> consumes (alphabet r) q q'"
proof (induction r arbitrary: q q')
  case (Chr c)
  then show ?case
    by (cases q; cases "snd q") (auto simp: consumes_def split: if_splits)
next
  case (Cls P)
  then show ?case
    by (cases q; cases "snd q") (auto simp: consumes_def split: if_splits)
next
  case Eps
  then show ?case by (simp add: consumes_refl)
next
  case WordB
  then show ?case by (simp add: consumes_refl split: if_splits)
next
  case Bol
  then show ?case by (simp add: consumes_refl split: if_splits)
next
  case (Seq a b)
  then obtain q1 where "q1 \<in> set (ends a q)" "q' \<in> set (ends b q1)" by auto
  then have "consumes (alphabet a) q q1" "consumes (alphabet b) q1 q'"
    using Seq.IH by blast+
  then show ?case using consumes_trans by simp
next
  case (Alt a b)
  from Alt.prems have "q' \<in> set (ends a q) \<or> q' \<in> set (ends b q)" by simp
  then show ?case
  proof
    assume "q' \<in> set (ends a q)"
    then have "consumes (alphabet a) q q'" by (rule Alt.IH(1))
    then show ?thesis by (rule consumes_mono) simp
  next
    assume "q' \<in> set (ends b q)"
    then have "consumes (alphabet b) q q'" by (rule Alt.IH(2))
    then show ?thesis by (rule consumes_mono) simp
  qed
next
  case (Star a)
  have "q' \<in> set (star_ends (ends a) q)" using Star.prems by simp
  then have "consumes (alphabet a) q q'"
    by (rule star_ends_consumes [rotated]) (rule Star.IH)
  then show ?case by simp
qed

lemma ends_shorter:
  "\<not> nullable r \<Longrightarrow> q' \<in> set (ends r q) \<Longrightarrow> length (snd q') < length (snd q)"
proof (induction r arbitrary: q q')
  case (Chr c)
  then show ?case by (cases "snd q") (auto split: if_splits)
next
  case (Cls P)
  then show ?case by (cases "snd q") (auto split: if_splits)
next
  case (Seq a b)
  from Seq.prems(2) obtain q1 where q1: "q1 \<in> set (ends a q)" "q' \<in> set (ends b q1)" by auto
  have la: "length (snd q1) \<le> length (snd q)"
    using ends_consumes [OF q1(1)] by (rule consumes_length)
  have lb: "length (snd q') \<le> length (snd q1)"
    using ends_consumes [OF q1(2)] by (rule consumes_length)
  from Seq.prems(1) have "\<not> nullable a \<or> \<not> nullable b" by simp
  then show ?case
  proof
    assume "\<not> nullable a"
    then have "length (snd q1) < length (snd q)" using Seq.IH(1) q1(1) by blast
    with lb show ?thesis by simp
  next
    assume "\<not> nullable b"
    then have "length (snd q') < length (snd q1)" using Seq.IH(2) q1(2) by blast
    with la show ?thesis by simp
  qed
next
  case (Alt a b)
  from Alt.prems have "(\<not> nullable a \<and> q' \<in> set (ends a q)) \<or> (\<not> nullable b \<and> q' \<in> set (ends b q))"
    by auto
  then show ?case using Alt.IH by blast
qed simp_all
section \<open>Substitution: what it inserts and what it leaves alone\<close>

lemma pos_at_advance: "pos_at s k = advance (None, s) k"
  by (simp add: pos_at_def advance_def)

lemma advance_Cons: "advance (p, x # xs) (Suc k) = advance (Some x, xs) k"
  by (cases k) (simp_all add: advance_def)

lemma sub_from_hits:
  "k \<le> length s \<Longrightarrow> ends r (advance (p, s) k) \<noteq> [] \<Longrightarrow> \<exists>a b. sub_from r repl (p, s) = a @ repl @ b"
proof (induction s arbitrary: p k)
  case Nil
  then have "ends r (p, []) \<noteq> []" by (simp add: advance_def)
  then obtain q qs where "ends r (p, []) = q # qs" by (cases "ends r (p, [])") auto
  then have "sub_from r repl (p, []) = [] @ repl @ []"
    by (simp add: sub_from.simps [of r repl "(p, [])"])
  then show ?case by blast
next
  case (Cons x xs)
  show ?case
  proof (cases "ends r (p, x # xs)")
    case Nil
    have "k \<noteq> 0"
    proof
      assume "k = 0"
      then have "advance (p, x # xs) k = (p, x # xs)" by (simp add: advance_def)
      with Cons.prems(2) Nil show False by simp
    qed
    then obtain j where k: "k = Suc j" by (cases k) auto
    with Cons.prems have "j \<le> length xs" "ends r (advance (Some x, xs) j) \<noteq> []"
      by (simp_all add: advance_Cons)
    from Cons.IH [OF this] obtain a b where "sub_from r repl (Some x, xs) = a @ repl @ b" by blast
    with Nil have "sub_from r repl (p, x # xs) = (x # a) @ repl @ b"
      by (simp add: sub_from.simps [of r repl "(p, x # xs)"])
    then show ?thesis by blast
  next
    case (Cons q qs)
    then have "\<exists>b. sub_from r repl (p, x # xs) = [] @ repl @ b"
      by (simp add: sub_from.simps [of r repl "(p, x # xs)"])
    then show ?thesis by blast
  qed
qed

lemma re_sub_hits: "matches_somewhere r s \<Longrightarrow> sublist repl (re_sub r repl s)"
proof -
  assume "matches_somewhere r s"
  then obtain k where k: "k \<in> set [0..<Suc (length s)]" "ends r (pos_at s k) \<noteq> []"
    unfolding matches_somewhere_def list_ex_iff by blast
  from k(1) have "k \<le> length s" by auto
  moreover from k(2) have "ends r (advance (None, s) k) \<noteq> []" by (simp add: pos_at_advance)
  ultimately obtain a b where "sub_from r repl (None, s) = a @ repl @ b"
    using sub_from_hits by blast
  then show ?thesis by (auto simp: re_sub_def sublist_def)
qed

lemma sub_from_inside_word:
  assumes gs: "\<And>q. ends r q \<noteq> [] \<Longrightarrow> wordb q \<or> fst q = None"
  shows "is_word c \<Longrightarrow> \<forall>x \<in> set w. is_word x \<Longrightarrow>
         sub_from r repl (Some c, w @ b) = w @ sub_from r repl (Some (last (c # w)), b)"
proof (induction w arbitrary: c)
  case Nil
  then show ?case by simp
next
  case (Cons x w)
  have "\<not> wordb (Some c, (x # w) @ b)"
    using Cons.prems by (simp add: wordb_def word_before_def word_after_def)
  then have "ends r (Some c, (x # w) @ b) = []"
    using gs [of "(Some c, (x # w) @ b)"] by auto
  then have "sub_from r repl (Some c, (x # w) @ b) = x # sub_from r repl (Some x, w @ b)"
    by (simp add: sub_from.simps [of r repl "(Some c, x # w @ b)"])
  moreover have "sub_from r repl (Some x, w @ b) = w @ sub_from r repl (Some (last (x # w)), b)"
    using Cons.IH [of x] Cons.prems by simp
  ultimately show ?case by simp
qed

lemma match_stays_before_word:
  assumes w: "\<forall>c \<in> set w. is_word c"
      and ge: "\<And>q q'. q' \<in> set (ends r q) \<Longrightarrow> wordb q'"
      and al: "\<not> set w \<subseteq> alphabet r"
      and q': "q' \<in> set (ends r (p, a @ w @ b))"
  shows "\<exists>m a2. a = m @ a2 \<and> snd q' = a2 @ w @ b"
proof -
  from ends_consumes [OF q'] obtain m where m: "a @ w @ b = m @ snd q'"
    "fst q' = (if m = [] then p else Some (last m))" "set m \<subseteq> alphabet r"
    by (auto simp: consumes_def)
  from m(1) have "\<exists>us. (a = m @ us \<and> us @ w @ b = snd q') \<or> (a @ us = m \<and> w @ b = us @ snd q')"
    by (simp add: append_eq_append_conv2)
  then obtain us where us: "(a = m @ us \<and> us @ w @ b = snd q') \<or> (a @ us = m \<and> w @ b = us @ snd q')"
    by blast
  show ?thesis
  proof (cases "a = m @ us \<and> us @ w @ b = snd q'")
    case True
    then have "a = m @ us \<and> snd q' = us @ w @ b" by simp
    then show ?thesis by blast
  next
    case False
    with us have beyond: "a @ us = m" "w @ b = us @ snd q'" by blast+
    from beyond(2) have "\<exists>vs. (w = us @ vs \<and> vs @ b = snd q') \<or> (w @ vs = us \<and> b = vs @ snd q')"
      by (simp add: append_eq_append_conv2)
    then obtain vs where vs: "(w = us @ vs \<and> vs @ b = snd q') \<or> (w @ vs = us \<and> b = vs @ snd q')"
      by blast
    show ?thesis
    proof (cases "us = []")
      case True
      with beyond have "a = m @ []" "snd q' = [] @ w @ b" by simp_all
      then show ?thesis by blast
    next
      case ne: False
      show ?thesis
      proof (cases "w = us @ vs \<and> vs @ b = snd q' \<and> vs \<noteq> []")
        case True
        have "m \<noteq> []" "last m = last us" using beyond(1) ne by auto
        moreover have "last us \<in> set w" using True ne by simp
        ultimately have "word_before q'" using m(2) w by (simp add: word_before_def)
        moreover have "snd q' = vs @ b" "vs \<noteq> []" "hd vs \<in> set w" using True by simp_all
        then have "word_after q'"
          using w by (cases vs) (simp_all add: word_after_def)
        ultimately have "\<not> wordb q'" by (simp add: wordb_def)
        with ge [OF q'] show ?thesis by simp
      next
        case False
        with vs have "set w \<subseteq> set us" by auto
        then have "set w \<subseteq> set m" using beyond(1) by auto
        with m(3) al show ?thesis by auto
      qed
    qed
  qed
qed

lemma sub_from_keeps_word:
  assumes w: "w \<noteq> []" "\<forall>c \<in> set w. is_word c"
      and gs: "\<And>q. ends r q \<noteq> [] \<Longrightarrow> wordb q \<or> fst q = None"
      and ge: "\<And>q q'. q' \<in> set (ends r q) \<Longrightarrow> wordb q'"
      and al: "\<not> set w \<subseteq> alphabet r"
      and nn: "\<not> nullable r"
  shows "\<exists>a' b'. sub_from r repl (p, a @ w @ b) = a' @ w @ b'"
proof (induction "length a" arbitrary: a p rule: less_induct)
  case less
  show ?case
  proof (cases "ends r (p, a @ w @ b)")
    case Nil
    show ?thesis
    proof (cases a)
      case Nil
      obtain c w2 where cw: "w = c # w2" using w(1) by (cases w) auto
      have "sub_from r repl (p, w @ b) = c # sub_from r repl (Some c, w2 @ b)"
        using \<open>ends r (p, a @ w @ b) = []\<close> Nil cw
        by (simp add: sub_from.simps [of r repl "(p, c # w2 @ b)"])
      also have "sub_from r repl (Some c, w2 @ b) = w2 @ sub_from r repl (Some (last (c # w2)), b)"
      proof (rule sub_from_inside_word)
        show "wordb q \<or> fst q = None" if "ends r q \<noteq> []" for q using that by (rule gs)
        show "is_word c" using w(2) cw by simp
        show "\<forall>x \<in> set w2. is_word x" using w(2) cw by simp
      qed
      finally have "sub_from r repl (p, a @ w @ b) = [] @ w @ sub_from r repl (Some (last (c # w2)), b)"
        using Nil cw by simp
      then show ?thesis by blast
    next
      case (Cons x a1)
      have "sub_from r repl (p, a @ w @ b) = x # sub_from r repl (Some x, a1 @ w @ b)"
        using \<open>ends r (p, a @ w @ b) = []\<close> Cons
        by (simp add: sub_from.simps [of r repl "(p, x # a1 @ w @ b)"])
      moreover obtain a' b' where "sub_from r repl (Some x, a1 @ w @ b) = a' @ w @ b'"
        using less [of a1 "Some x"] Cons by auto
      ultimately have "sub_from r repl (p, a @ w @ b) = (x # a') @ w @ b'" by simp
      then show ?thesis by blast
    qed
  next
    case (Cons q' qs)
    then have q': "q' \<in> set (ends r (p, a @ w @ b))" by simp
    have "\<exists>m a2. a = m @ a2 \<and> snd q' = a2 @ w @ b"
    proof (rule match_stays_before_word)
      show "\<forall>c \<in> set w. is_word c" by fact
      show "wordb q2" if "q2 \<in> set (ends r q1)" for q1 q2 using that by (rule ge)
      show "\<not> set w \<subseteq> alphabet r" by fact
      show "q' \<in> set (ends r (p, a @ w @ b))" by fact
    qed
    then obtain m a2 where m: "a = m @ a2" "snd q' = a2 @ w @ b" by blast
    have sh: "length (snd q') < length (a @ w @ b)"
      using ends_shorter [OF nn q'] by simp
    with m have "m \<noteq> []" by auto
    with m(1) have short: "length a2 < length a" by simp
    have "sub_from r repl (p, a @ w @ b) = repl @ sub_from r repl q'"
      using Cons sh by (simp add: sub_from.simps [of r repl "(p, a @ w @ b)"])
    moreover have "sub_from r repl q' = sub_from r repl (fst q', a2 @ w @ b)"
      using m(2) by (cases q') simp
    moreover obtain a' b' where "sub_from r repl (fst q', a2 @ w @ b) = a' @ w @ b'"
      using less [OF short, of "fst q'"] by auto
    ultimately have "sub_from r repl (p, a @ w @ b) = (repl @ a') @ w @ b'" by simp
    then show ?thesis by blast
  qed
qed

lemma re_sub_keeps_word:
  assumes "w \<noteq> []" "\<forall>c \<in> set w. is_word c"
      and "\<And>q. ends r q \<noteq> [] \<Longrightarrow> wordb q \<or> fst q = None"
      and "\<And>q q'. q' \<in> set (ends r q) \<Longrightarrow> wordb q'"
      and "\<not> set w \<subseteq> alphabet r"
      and "\<not> nullable r"
      and "sublist w t"
  shows "sublist w (re_sub r repl t)"
proof -
  from assms(7) obtain a b where "t = a @ w @ b" by (auto simp: sublist_def)
  moreover have "\<exists>a' b'. sub_from r repl (None, a @ w @ b) = a' @ w @ b'"
  proof (rule sub_from_keeps_word)
    show "w \<noteq> []" by fact
    show "\<forall>c \<in> set w. is_word c" by fact
    show "wordb q \<or> fst q = None" if "ends r q \<noteq> []" for q using that by (rule assms(3))
    show "wordb q'" if "q' \<in> set (ends r q)" for q q' using that by (rule assms(4))
    show "\<not> set w \<subseteq> alphabet r" by fact
    show "\<not> nullable r" by fact
  qed
  ultimately show ?thesis
    by (auto simp: re_sub_def sublist_def)
qed

section \<open>The \<^verbatim>\<open>void\<close> rule\<close>

lemma concat_map_if_singleton:
  "concat (map (\<lambda>q. if P q then [q] else []) qs) = filter P qs"
  by (induction qs) simp_all

lemma kw_ends: "ends (kw x) q = (if wordb q then filter wordb (ends x q) else [])"
  by (simp add: kw_def concat_map_if_singleton)

lemma re_bol_ends:
  "ends (re_bol w) q = (if fst q = None then filter wordb (ends (lits w) q) else [])"
  by (cases "fst q") (simp_all add: re_bol_def concat_map_if_singleton)

lemma None_not_covered:
  "CHR ''N'' \<notin> A \<or> CHR ''o'' \<notin> A \<Longrightarrow> \<not> set ''None'' \<subseteq> A"
  by auto

lemma kw_keeps_None:
  assumes "CHR ''N'' \<notin> alphabet x \<or> CHR ''o'' \<notin> alphabet x" and "\<not> nullable x"
      and "sublist ''None'' t"
  shows "sublist ''None'' (re_sub (kw x) repl t)"
proof (rule re_sub_keeps_word)
  show "''None'' \<noteq> []" by simp
  show "\<forall>c \<in> set ''None''. is_word c" by (simp add: is_word_def)
  show "wordb q \<or> fst q = None" if "ends (kw x) q \<noteq> []" for q
    using that by (simp add: kw_ends split: if_splits)
  show "wordb q'" if "q' \<in> set (ends (kw x) q)" for q q'
    using that by (simp add: kw_ends split: if_splits)
  show "\<not> set ''None'' \<subseteq> alphabet (kw x)"
    using assms(1) by (intro None_not_covered) (simp add: kw_def)
  show "\<not> nullable (kw x)" using assms(2) by (simp add: kw_def)
  show "sublist ''None'' t" by fact
qed

lemma re_bol_keeps_None:
  assumes "CHR ''N'' \<notin> alphabet (lits w)" and "\<not> nullable (lits w)"
      and "sublist ''None'' t"
  shows "sublist ''None'' (re_sub (re_bol w) repl t)"
proof (rule re_sub_keeps_word)
  show "''None'' \<noteq> []" by simp
  show "\<forall>c \<in> set ''None''. is_word c" by (simp add: is_word_def)
  show "wordb q \<or> fst q = None" if "ends (re_bol w) q \<noteq> []" for q
    using that by (simp add: re_bol_ends split: if_splits)
  show "wordb q'" if "q' \<in> set (ends (re_bol w) q)" for q q'
    using that by (simp add: re_bol_ends split: if_splits)
  show "\<not> set ''None'' \<subseteq> alphabet (re_bol w)"
    using assms(1) by (intro None_not_covered) (simp add: re_bol_def)
  show "\<not> nullable (re_bol w)" using assms(2) by (simp add: re_bol_def)
  show "sublist ''None'' t" by fact
qed

lemma type_rules_keep_None: "sublist ''None'' t \<Longrightarrow> sublist ''None'' (type_rules t)"
  unfolding type_rules_def re_fixed_int_def re_native_int_def re_std_def re_map_def
  by (intro kw_keeps_None) (simp_all add: Opt_def Plus_def Digit_def is_digit_def)

lemma literal_rules_keep_None: "sublist ''None'' t \<Longrightarrow> sublist ''None'' (literal_rules t)"
  unfolding literal_rules_def
  by (intro kw_keeps_None) simp_all

lemma introducers_keep_None: "sublist ''None'' t \<Longrightarrow> sublist ''None'' (introducers t)"
  unfolding introducers_def
  by (intro re_bol_keeps_None) simp_all

lemma dropWhile_keeps:
  assumes "w \<noteq> []" and "\<not> P (hd w)"
  shows "\<exists>a'. dropWhile P (a @ w @ b) = a' @ w @ b"
proof (cases "\<forall>x \<in> set a. P x")
  case True
  obtain c w2 where "w = c # w2" using assms(1) by (cases w) auto
  with assms(2) True have "dropWhile P (a @ w @ b) = [] @ w @ b"
    by (simp add: dropWhile_append)
  then show ?thesis by blast
next
  case False
  then have "dropWhile P (a @ w @ b) = dropWhile P a @ w @ b"
    by (auto simp: dropWhile_append)
  then show ?thesis by blast
qed

lemma strip_keeps:
  assumes "w \<noteq> []" and "\<not> is_space (hd w)" and "\<not> is_space (last w)" and "sublist w t"
  shows "sublist w (strip t)"
proof -
  from assms(4) obtain a b where "t = a @ w @ b" by (auto simp: sublist_def)
  moreover obtain a' where a': "dropWhile is_space (a @ w @ b) = a' @ w @ b"
    using dropWhile_keeps [where P = is_space and w = w and a = a and b = b] assms(1,2) by blast
  moreover have "rev w \<noteq> []" "\<not> is_space (hd (rev w))"
    using assms(1,3) by (simp_all add: hd_rev)
  then obtain b' where "dropWhile is_space (rev b @ rev w @ rev a') = b' @ rev w @ rev a'"
    using dropWhile_keeps [where P = is_space and w = "rev w" and a = "rev b" and b = "rev a'"]
    by blast
  ultimately have "strip t = a' @ w @ rev b'"
    by (simp add: strip_def)
  then show ?thesis by (auto simp: sublist_def)
qed

lemma contains_iff_sublist: "contains w t \<longleftrightarrow> sublist w t"
proof
  assume "contains w t"
  then obtain k where "take (length w) (drop k t) = w"
    by (auto simp: contains_def list_ex_iff startswith_def)
  then have "t = take k t @ w @ drop (length w) (drop k t)"
    by (metis append_take_drop_id)
  then show "sublist w t" unfolding sublist_def by blast
next
  assume "sublist w t"
  then obtain ps ss where t: "t = ps @ w @ ss" by (auto simp: sublist_def)
  then have "take (length w) (drop (length ps) t) = w" "length ps \<in> set [0..<Suc (length t)]"
    by auto
  then show "contains w t"
    unfolding contains_def list_ex_iff startswith_def by blast
qed

lemma void_rule_inserts_None: "has_word ''void'' t \<Longrightarrow> sublist ''None'' (void_rule t)"
  unfolding has_word_def void_rule_def by (rule re_sub_hits)

text \<open>
  C10, as the code has it.  Whenever \<^verbatim>\<open>void\<close> is a whole word of the text that reaches the
  \<^verbatim>\<open>void\<close> rule, that is, of the input after the char-pointer rule, after \<^verbatim>\<open>::\<close>, \<^verbatim>\<open><\<close> and \<^verbatim>\<open>>\<close>
  have been rewritten and \<^verbatim>\<open>&\<close>, \<^verbatim>\<open>*\<close>, \<^verbatim>\<open>...\<close>, \<^verbatim>\<open>const\<close>, \<^verbatim>\<open>constexpr\<close> and \<^verbatim>\<open>volatile\<close> removed,
  the output of the translator contains \<^verbatim>\<open>None\<close>; the raw type \<^verbatim>\<open>void\<close> translates to \<^verbatim>\<open>None\<close>.
  A whole word is what \<^verbatim>\<open>\bvoid\b\<close> matches: on each side the text ends or a character
  follows that is not a word character, in the Unicode sense that \<^verbatim>\<open>\b\<close> has for the
  patterns of the translator.
\<close>

theorem void_becomes_None:
  "(has_word ''void'' (before_void s) \<longrightarrow> contains ''None'' (simple_parse s))
   \<and> simple_parse ''void'' = ''None''"
proof (intro conjI impI)
  assume h: "has_word ''void'' (before_void s)"
  have "\<not> has_word ''void'' (before_void [])" by code_simp
  with h have ne: "s \<noteq> []" by auto
  have "sublist ''None'' (void_rule (before_void s))"
    using h by (rule void_rule_inserts_None)
  then have "sublist ''None'' (introducers (literal_rules (type_rules (void_rule (before_void s)))))"
    by (intro introducers_keep_None literal_rules_keep_None type_rules_keep_None)
  then have "sublist ''None'' (after_void (void_rule (before_void s)))"
    unfolding after_void_def by (intro strip_keeps) (simp_all add: is_space_def)
  with ne show "contains ''None'' (simple_parse s)"
    by (simp add: simple_parse_def contains_iff_sublist)
next
  show "simple_parse ''void'' = ''None''" by code_simp
qed

theorem void_becomes_None_witness:
  "has_word ''void'' (before_void ''const void *'')
   \<and> simple_parse ''const void *'' = ''None''
   \<and> contains ''None'' (simple_parse ''const void *'')"
proof -
  have a: "has_word ''void'' (before_void ''const void *'')" by code_simp
  have b: "simple_parse ''const void *'' = ''None''" by code_simp
  show ?thesis using void_becomes_None [of "''const void *''"] a b by simp
qed

theorem void_glued_to_neighbour:
  "has_word ''void'' ''void*const''
   \<and> simple_parse ''void*const'' = ''voidconst''
   \<and> \<not> contains ''None'' (simple_parse ''void*const'')"
  by code_simp

text \<open>
  After a letter, accented or not, \<^verbatim>\<open>void\<close> is not a whole word: U+00E9 followed by
  \<^verbatim>\<open>void\<close> is left as it is, and so is \<^verbatim>\<open>avoid\<close>.  After U+00D7, the multiplication
  sign, it is one.
\<close>

lemma void_after_letter:
  "\<not> has_word ''void'' (before_void (CHR 0xE9 # ''void''))
   \<and> simple_parse (CHR 0xE9 # ''void'') = CHR 0xE9 # ''void''
   \<and> simple_parse ''avoid'' = ''avoid''
   \<and> has_word ''void'' (before_void (CHR 0xD7 # ''void''))
   \<and> simple_parse (CHR 0xD7 # ''void'') = CHR 0xD7 # ''None''"
  by code_simp

text \<open>Trimming removes U+0085 and U+00A0 as it removes blanks.\<close>

lemma strip_no_break_space:
  "simple_parse (CHR 0xA0 # ''int'' @ [CHR 0x85]) = ''int''"
  by code_simp

section \<open>Applying the translator twice\<close>

lemma strip_strip: "strip (strip x) = strip x"
proof -
  define z where "z = dropWhile is_space x"
  define y where "y = rev (dropWhile is_space (rev z))"
  have y: "strip x = y" by (simp add: strip_def y_def z_def)
  have "rev (takeWhile is_space (rev z) @ dropWhile is_space (rev z)) = rev (rev z)"
    by (simp only: takeWhile_dropWhile_id)
  then have z: "z = y @ rev (takeWhile is_space (rev z))"
    by (simp only: rev_append rev_rev_ident y_def)
  have "dropWhile is_space y = y"
  proof (cases y)
    case Nil
    then show ?thesis by simp
  next
    case (Cons c cs)
    define t where "t = rev (takeWhile is_space (rev z))"
    have "z = y @ t" using z by (simp add: t_def)
    with Cons have "z = c # (cs @ t)" by simp
    then have "z \<noteq> []" "hd z = c" by simp_all
    then have "\<not> is_space c"
      unfolding z_def using hd_dropWhile [of is_space x] by auto
    with Cons show ?thesis by simp
  qed
  then have "strip y = rev (dropWhile is_space (rev y))" by (simp add: strip_def)
  also have "\<dots> = rev (dropWhile is_space (dropWhile is_space (rev z)))" by (simp add: y_def)
  also have "\<dots> = y" by (simp add: y_def)
  finally show ?thesis using y by simp
qed

lemma simple_parse_trimmed: "strip (simple_parse s) = simple_parse s"
  by (simp add: simple_parse_def after_void_def strip_strip) (simp add: strip_def)

section \<open>Types as construction leaves them\<close>

lemma sub_from_no_word:
  assumes gs: "\<And>q. ends r q \<noteq> [] \<Longrightarrow> wordb q"
  shows "\<forall>c \<in> set s. \<not> is_word c \<Longrightarrow> \<not> word_before (p, s) \<Longrightarrow> sub_from r repl (p, s) = s"
proof (induction s arbitrary: p)
  case Nil
  have "\<not> wordb (p, [])" using Nil by (simp add: wordb_def word_after_def)
  then have "ends r (p, []) = []" using gs by blast
  then show ?case by (simp add: sub_from.simps [of r repl "(p, [])"])
next
  case (Cons x xs)
  have "\<not> wordb (p, x # xs)" using Cons.prems by (simp add: wordb_def word_after_def)
  then have "ends r (p, x # xs) = []" using gs by blast
  moreover have "sub_from r repl (Some x, xs) = xs"
    using Cons.prems by (intro Cons.IH) (simp_all add: word_before_def)
  ultimately show ?case by (simp add: sub_from.simps [of r repl "(p, x # xs)"])
qed

lemma replace_absent:
  "old \<noteq> [] \<Longrightarrow> hd old \<notin> set s \<Longrightarrow> replace old new s = s"
proof (induction s)
  case Nil
  then show ?case by (simp add: replace.simps [of old new "[]"])
next
  case (Cons x xs)
  obtain c cs where old: "old = c # cs" using Cons.prems(1) by (cases old) auto
  with Cons.prems have "strip_prefix old (x # xs) = None" by auto
  moreover have "replace old new xs = xs" using Cons by simp
  ultimately show ?case using Cons.prems(1) by (simp add: replace.simps [of old new "x # xs"])
qed

lemma space_not_word: "is_space c \<Longrightarrow> \<not> is_word c"
  by (cases c) (auto simp: is_space_code is_word_code)

lemma strip_Nil_iff: "strip s = [] \<longleftrightarrow> (\<forall>c \<in> set s. is_space c)"
proof -
  have "strip s = [] \<longleftrightarrow> (\<forall>c \<in> set (dropWhile is_space s). is_space c)"
    by (simp add: strip_def dropWhile_eq_Nil_conv)
  also have "\<dots> \<longleftrightarrow> dropWhile is_space s = []"
  proof
    assume a: "\<forall>c \<in> set (dropWhile is_space s). is_space c"
    show "dropWhile is_space s = []"
    proof (rule ccontr)
      assume n: "dropWhile is_space s \<noteq> []"
      then have "\<not> is_space (hd (dropWhile is_space s))" by (rule hd_dropWhile)
      moreover have "hd (dropWhile is_space s) \<in> set (dropWhile is_space s)" using n by simp
      ultimately show False using a by blast
    qed
  next
    assume e: "dropWhile is_space s = []"
    show "\<forall>c \<in> set (dropWhile is_space s). is_space c" unfolding e by simp
  qed
  also have "\<dots> \<longleftrightarrow> (\<forall>c \<in> set s. is_space c)"
    by (simp add: dropWhile_eq_Nil_conv)
  finally show ?thesis .
qed

lemma simple_parse_blank:
  assumes "strip s = []"
  shows "simple_parse s = []"
proof (cases "s = []")
  case True
  then show ?thesis by (simp add: simple_parse_def)
next
  case False
  have sp: "\<forall>c \<in> set s. is_space c" using assms by (simp add: strip_Nil_iff)
  have "re_sub re_charptr ''str'' s = s"
    unfolding re_sub_def
  proof (rule sub_from_no_word)
    show "wordb q" if "ends re_charptr q \<noteq> []" for q
      using that by (cases "wordb q") (simp_all add: re_charptr_def)
    show "\<forall>c \<in> set s. \<not> is_word c" using sp space_not_word by blast
    show "\<not> word_before (None, s)" by (simp add: word_before_def)
  qed
  moreover have "\<not> is_space CHR '':''" "\<not> is_space CHR ''<''" "\<not> is_space CHR ''>''"
    "\<not> is_space CHR ''&''" "\<not> is_space CHR ''*''" "\<not> is_space CHR ''.''"
    by (simp_all add: is_space_def)
  then have "CHR '':'' \<notin> set s" "CHR ''<'' \<notin> set s" "CHR ''>'' \<notin> set s"
    "CHR ''&'' \<notin> set s" "CHR ''*'' \<notin> set s" "CHR ''.'' \<notin> set s"
    using sp by blast+
  then have "markers s = strip s"
    by (simp add: markers_def replace_absent)
  ultimately have "before_void s = qualifiers []"
    using assms by (simp add: before_void_def)
  moreover have "after_void (void_rule (qualifiers [])) = []" by code_simp
  ultimately show ?thesis using False by (simp add: simple_parse_def)
qed

lemma Type_of_node_consistent: "consistent (Type_of_node C x)"
proof (induction C x rule: Type_of_node.induct)
  case (1 C tg at tx cs ta)
  let ?x = "Element tg at tx cs ta"
  let ?raw = "PStr (simple_parse_node tx) #
                concat (map (\<lambda>t. [PType (Type_of_node C t), PStr (simple_parse_node (x_tail t))]) cs)"
  let ?ps = "filter (part_bool C) ?raw"
  have parts_ok: "list_all consistent_part ?ps"
    using "1.IH" by (auto simp: list_all_iff)
  have "?ps = []" if e: "is_empty (Type (Some ?x) ov ?ps None)" for ov
  proof -
    from e have cs: "cs = []" and tx: "tx = None \<or> (\<exists>s. tx = Some s \<and> strip s = [])"
      by (auto simp: is_empty_def strip_def split: if_splits option.splits)
    from tx have "simple_parse_node tx = []"
      by (auto simp: simple_parse_node_def simple_parse_blank)
    with cs show ?thesis by (simp add: part_bool_def)
  qed
  with parts_ok show ?case by (simp add: Let_def)
qed

lemma Type_init_consistent: "consistent (Type_init C x)"
  by (cases x) (simp_all add: Type_init_def Type_of_node_consistent is_empty_def)

section \<open>The translator on a single word\<close>

lemma simple_parse_as_fold:
  "s \<noteq> [] \<Longrightarrow>
     simple_parse s
       = strip (fold (\<lambda>(r, repl). re_sub r repl) keyword_rules (markers (re_sub re_charptr ''str'' s)))"
  by (simp add: simple_parse_def after_void_def introducers_def literal_rules_def type_rules_def
      void_rule_def before_void_def qualifiers_def keyword_rules_def)

lemma kw_word_guarded: "\<not> nullable x \<Longrightarrow> word_guarded (kw x)"
  by (auto simp: word_guarded_def kw_ends kw_def split: if_splits)

lemma re_bol_word_guarded: "\<not> nullable (lits w) \<Longrightarrow> word_guarded (re_bol w)"
  by (auto simp: word_guarded_def re_bol_ends re_bol_def split: if_splits)

lemma keyword_rules_guarded: "list_all (\<lambda>(r, repl). word_guarded r) keyword_rules"
  unfolding keyword_rules_def re_const_def re_fixed_int_def re_native_int_def re_std_def re_map_def
  by (simp add: kw_word_guarded re_bol_word_guarded Opt_def Plus_def Digit_def)

lemma ends_at_end: "\<not> nullable r \<Longrightarrow> ends r (p, []) = []"
proof (rule ccontr)
  assume nn: "\<not> nullable r" and "ends r (p, []) \<noteq> []"
  then obtain q where "q \<in> set (ends r (p, []))" by (cases "ends r (p, [])") auto
  from ends_shorter [OF nn this] show False by simp
qed

lemma guarded_on_word:
  assumes g: "word_guarded r" and s: "single_word s"
  shows "re_sub r repl s = s \<or> re_sub r repl s = repl"
proof -
  have gs: "wordb q \<or> fst q = None" if "ends r q \<noteq> []" for q
    using g that by (cases q) (auto simp: word_guarded_def)
  have ge: "wordb q'" if "q' \<in> set (ends r q)" for q q'
    using g that by (cases q; cases q') (auto simp: word_guarded_def)
  have nn: "\<not> nullable r"
    using g by (simp add: word_guarded_def)
  from s obtain c cs where cs: "s = c # cs" "is_word c" "\<forall>x \<in> set cs. is_word x"
    by (cases s) (auto simp: single_word_def list_all_iff)
  have fin: "sub_from r repl (p, []) = []" for p
    using ends_at_end [OF nn] by (simp add: sub_from.simps [of r repl "(p, [])"])
  show ?thesis
  proof (cases "ends r (None, s)")
    case Nil
    have "sub_from r repl (Some c, cs @ []) = cs @ sub_from r repl (Some (last (c # cs)), [])"
    proof (rule sub_from_inside_word)
      show "wordb q \<or> fst q = None" if "ends r q \<noteq> []" for q using that by (rule gs)
      show "is_word c" by fact
      show "\<forall>x \<in> set cs. is_word x" by fact
    qed
    then have "sub_from r repl (Some c, cs) = cs" using fin by simp
    with Nil cs(1) have "sub_from r repl (None, s) = s"
      by (simp add: sub_from.simps [of r repl "(None, c # cs)"])
    then show ?thesis by (simp add: re_sub_def)
  next
    case (Cons q qs)
    then have q: "q \<in> set (ends r (None, s))" by simp
    from ends_consumes [OF q] obtain m where m: "s = m @ snd q"
      "fst q = (if m = [] then None else Some (last m))"
      by (auto simp: consumes_def)
    have sh: "length (snd q) < length s" using ends_shorter [OF nn q] by simp
    with m(1) have mne: "m \<noteq> []" by auto
    have "snd q = []"
    proof (rule ccontr)
      assume ne: "snd q \<noteq> []"
      have all: "\<forall>x \<in> set s. is_word x" using cs by auto
      have "last m \<in> set s" "hd (snd q) \<in> set s"
        using m(1) mne ne by (metis last_in_set set_append UnCI, metis hd_in_set set_append UnCI)
      with all have "is_word (last m)" "is_word (hd (snd q))" by blast+
      then have "word_before q" "word_after q"
        using m(2) mne ne by (auto simp: word_before_def word_after_def split: list.splits)
      then have "\<not> wordb q" by (simp add: wordb_def)
      with ge [OF q] show False by simp
    qed
    then have "sub_from r repl q = []" using fin [of "fst q"] by (cases q) simp
    with Cons sh have "sub_from r repl (None, s) = repl"
      by (simp add: sub_from.simps [of r repl "(None, s)"])
    then show ?thesis by (simp add: re_sub_def)
  qed
qed

lemma fold_rules_on_word:
  assumes "single_word s"
  shows "list_all (\<lambda>(r, repl). word_guarded r) rules
         \<Longrightarrow> t = s \<or> t \<in> set G
         \<Longrightarrow> fold (\<lambda>(r, repl). re_sub r repl) rules t = s
             \<or> fold (\<lambda>(r, repl). re_sub r repl) rules t \<in> set (track rules G)"
proof (induction rules arbitrary: t G)
  case Nil
  then show ?case by simp
next
  case (Cons rule rules)
  obtain r repl where rule: "rule = (r, repl)" by (cases rule)
  from Cons.prems(1) rule have g: "word_guarded r" by simp
  have "re_sub r repl t = s \<or> re_sub r repl t \<in> set (repl # map (re_sub r repl) G)"
  proof (cases "t = s")
    case True
    with guarded_on_word [OF g assms, of repl] show ?thesis by auto
  next
    case False
    with Cons.prems(2) show ?thesis by auto
  qed
  moreover have "list_all (\<lambda>(r, repl). word_guarded r) rules"
    using Cons.prems(1) by simp
  ultimately have "fold (\<lambda>(r, repl). re_sub r repl) rules (re_sub r repl t) = s
     \<or> fold (\<lambda>(r, repl). re_sub r repl) rules (re_sub r repl t)
          \<in> set (track rules (repl # map (re_sub r repl) G))"
    by (intro Cons.IH)
  then show ?case using rule by simp
qed

lemma track_emitted: "list_all (\<lambda>c. strip c \<in> set emitted) (track keyword_rules [])"
  by code_simp

lemma needs_Chr: "ends (Chr c) q \<noteq> [] \<Longrightarrow> c \<in> set (snd q)"
  by (cases "snd q") (auto split: if_splits)

lemma needs_Seq:
  assumes "\<And>q. ends b q \<noteq> [] \<Longrightarrow> c \<in> set (snd q)" and "ends (Seq a b) q \<noteq> []"
  shows "c \<in> set (snd q)"
proof -
  from assms(2) obtain q1 where q1: "q1 \<in> set (ends a q)" "ends b q1 \<noteq> []" by auto
  from ends_consumes [OF q1(1)] obtain m where "snd q = m @ snd q1" by (auto simp: consumes_def)
  with assms(1) [OF q1(2)] show ?thesis by simp
qed

lemma charptr_needs_star:
  assumes "ends re_charptr q \<noteq> []"
  shows "CHR ''*'' \<in> set (snd q)"
proof -
  let ?s = "Chr CHR ''*''"
  let ?p = "Plus (Chr CHR '' '')"
  let ?l = "lits ''char''"
  let ?o = "Opt (Seq (lits ''const'') (Plus (Chr CHR '' '')))"
  have 1: "CHR ''*'' \<in> set (snd q)" if "ends (Seq ?p ?s) q \<noteq> []" for q
    using that by (rule needs_Seq [rotated]) (rule needs_Chr)
  have 2: "CHR ''*'' \<in> set (snd q)" if "ends (Seq ?l (Seq ?p ?s)) q \<noteq> []" for q
    using that by (rule needs_Seq [rotated]) (rule 1)
  have 3: "CHR ''*'' \<in> set (snd q)" if "ends (Seq ?o (Seq ?l (Seq ?p ?s))) q \<noteq> []" for q
    using that by (rule needs_Seq [rotated]) (rule 2)
  have "re_charptr = Seq WordB (Seq ?o (Seq ?l (Seq ?p ?s)))"
    by (simp add: re_charptr_def)
  with assms have "ends (Seq WordB (Seq ?o (Seq ?l (Seq ?p ?s)))) q \<noteq> []" by simp
  then show ?thesis by (rule needs_Seq [rotated]) (rule 3)
qed

lemma sub_from_absent:
  assumes "\<And>q. ends r q \<noteq> [] \<Longrightarrow> c \<in> set (snd q)"
  shows "c \<notin> set s \<Longrightarrow> sub_from r repl (p, s) = s"
proof (induction s arbitrary: p)
  case Nil
  have "ends r (p, []) = []" using assms [of "(p, [])"] by auto
  then show ?case by (simp add: sub_from.simps [of r repl "(p, [])"])
next
  case (Cons x xs)
  have "ends r (p, x # xs) = []" using assms [of "(p, x # xs)"] Cons.prems by auto
  moreover have "sub_from r repl (Some x, xs) = xs" using Cons by simp
  ultimately show ?case by (simp add: sub_from.simps [of r repl "(p, x # xs)"])
qed

lemma strip_word: "single_word s \<Longrightarrow> strip s = s"
proof -
  assume s: "single_word s"
  then have w: "s \<noteq> []" "is_word (hd s)" "is_word (last s)"
    by (auto simp: single_word_def list_all_iff)
  have ns: "\<not> is_space c" if "is_word c" for c using that space_not_word by blast
  have "dropWhile is_space s = s" using w ns by (cases s) auto
  moreover have "dropWhile is_space (rev s) = rev s"
    using w ns by (cases "rev s") (auto simp: hd_rev [symmetric] simp del: hd_rev)
  ultimately show ?thesis by (simp add: strip_def)
qed

lemma before_rules_on_word:
  assumes "single_word s"
  shows "markers (re_sub re_charptr ''str'' s) = s"
proof -
  have nw: "c \<notin> set s" if "\<not> is_word c" for c
    using assms that by (auto simp: single_word_def list_all_iff)
  have "CHR ''*'' \<notin> set s" by (rule nw) (simp add: is_word_def)
  then have "re_sub re_charptr ''str'' s = s"
    unfolding re_sub_def by (rule sub_from_absent [rotated]) (rule charptr_needs_star)
  moreover have "CHR '':'' \<notin> set s" "CHR ''<'' \<notin> set s" "CHR ''>'' \<notin> set s"
    "CHR ''&'' \<notin> set s" "CHR ''.'' \<notin> set s"
    by (rule nw, simp add: is_word_def)+
  ultimately show ?thesis
    using \<open>CHR ''*'' \<notin> set s\<close> assms by (simp add: markers_def replace_absent strip_word)
qed

lemma simple_parse_on_word:
  assumes "single_word s"
  shows "simple_parse s = s \<or> simple_parse s \<in> set emitted"
proof -
  have ne: "s \<noteq> []" using assms by (simp add: single_word_def)
  let ?t = "fold (\<lambda>(r, repl). re_sub r repl) keyword_rules s"
  have "?t = s \<or> ?t \<in> set (track keyword_rules [])"
    using fold_rules_on_word [OF assms keyword_rules_guarded, of s "[]"] by simp
  then have "strip ?t = s \<or> strip ?t \<in> set emitted"
    using strip_word [OF assms] track_emitted by (auto simp: list_all_iff)
  then show ?thesis
    by (simp add: simple_parse_as_fold [OF ne] before_rules_on_word [OF assms])
qed

lemma emitted_fixed: "list_all (\<lambda>c. simple_parse c = c) emitted"
  by code_simp

lemma simple_parse_idempotent_on_word:
  "single_word s \<Longrightarrow> simple_parse (simple_parse s) = simple_parse s"
  using simple_parse_on_word [of s] emitted_fixed by (auto simp: list_all_iff)

text \<open>
  C5, as the code has it.  Translating twice gives what translating once gives on every
  input that is a single word (word characters only: letters, digits, underscores and the
  other code points that \<^verbatim>\<open>\w\<close> matches), on the empty input
  and on the keywords of several words and the markers that the rules name; and every
  output is trimmed, so trimming is never what a second application changes.  (On other
  inputs a second application can change the result: the rule for the native integer types
  writes a blank before \<^verbatim>\<open>int\<close> each time it fires.)
\<close>

theorem simple_parse_idempotent_on_words:
  "(single_word s \<longrightarrow> simple_parse (simple_parse s) = simple_parse s)
   \<and> list_all (\<lambda>k. simple_parse (simple_parse k) = simple_parse k) rule_keywords
   \<and> simple_parse (simple_parse []) = simple_parse []
   \<and> strip (simple_parse t) = simple_parse t"
proof (intro conjI impI)
  show "simple_parse (simple_parse s) = simple_parse s" if "single_word s"
    using that by (rule simple_parse_idempotent_on_word)
  show "list_all (\<lambda>k. simple_parse (simple_parse k) = simple_parse k) rule_keywords"
    by code_simp
  show "simple_parse (simple_parse []) = simple_parse []" by (simp add: simple_parse_def)
  show "strip (simple_parse t) = simple_parse t" by (rule simple_parse_trimmed)
qed

theorem simple_parse_idempotent_on_words_witness:
  "single_word ''uint32_t''
   \<and> simple_parse ''uint32_t'' = ''int''
   \<and> simple_parse (simple_parse ''uint32_t'') = ''int''
   \<and> strip (simple_parse ''  void  '') = ''None''"
proof -
  have a: "single_word ''uint32_t''" "simple_parse ''uint32_t'' = ''int''"
          "simple_parse ''  void  '' = ''None''"
    by code_simp+
  show ?thesis
    using simple_parse_idempotent_on_words [of "''uint32_t''" "''  void  ''"] a by simp
qed

theorem simple_parse_not_idempotent:
  "simple_parse ''vector<int>'' = ''List[ int]''
   \<and> simple_parse (simple_parse ''vector<int>'') = ''List[  int]''
   \<and> simple_parse (simple_parse ''vector<int>'') \<noteq> simple_parse ''vector<int>''"
  by code_simp

end
